theory Spec2Isabelle
  imports Complex_Main
begin

section \<open>Library functions the program calls\<close>

text \<open>
  The program is \<^verbatim>\<open>storageImageUpdater.py\<close>. It calls a few functions of the Python
  standard library on strings. They are modelled here on \<open>string\<close>, one \<open>char\<close> per
  code point below 256.
\<close>

subsection \<open>Text of an integer\<close>

text \<open>
  The f-string \<^verbatim>\<open>f"{product_id}_{media_id}_{original_filename}"\<close> and \<^verbatim>\<open>str(value)\<close>
  render an \<open>int\<close> in decimal, with a leading minus sign when it is negative.
\<close>

definition digit_char :: "nat \<Rightarrow> char" where
  "digit_char d = ''0123456789'' ! d"

function str_nat :: "nat \<Rightarrow> string" where
  "str_nat n = (if n < 10 then [digit_char n] else str_nat (n div 10) @ [digit_char (n mod 10)])"
  by pat_completeness auto
termination
  by (relation "measure (\<lambda>n. n)") auto

declare str_nat.simps [simp del]

definition str_int :: "int \<Rightarrow> string" where
  "str_int i = (if i < 0 then CHR ''-'' # str_nat (nat (- i)) else str_nat (nat i))"

subsection \<open>\<^verbatim>\<open>urllib.parse.urlparse(url).path\<close>\<close>

datatype error = ValueError | FileNotFoundError | DatabaseError

definition is_ascii_alpha :: "char \<Rightarrow> bool" where
  "is_ascii_alpha c = (c \<in> set ''abcdefghijklmnopqrstuvwxyzABCDEFGHIJKLMNOPQRSTUVWXYZ'')"

definition scheme_chars :: string where
  "scheme_chars = ''abcdefghijklmnopqrstuvwxyzABCDEFGHIJKLMNOPQRSTUVWXYZ0123456789+-.''"

definition lower_char :: "char \<Rightarrow> char" where
  "lower_char c =
     (case map_of (zip ''ABCDEFGHIJKLMNOPQRSTUVWXYZ'' ''abcdefghijklmnopqrstuvwxyz'') c of
        None \<Rightarrow> c | Some l \<Rightarrow> l)"

definition uses_params :: "string list" where
  "uses_params = ['''', ''ftp'', ''hdl'', ''prospero'', ''http'', ''imap'', ''https'', ''shttp'',
     ''rtsp'', ''rtsps'', ''rtspu'', ''sip'', ''sips'', ''mms'', ''sftp'', ''tel'']"

text \<open>\<^verbatim>\<open>s.split(c, 1)[0]\<close>: the part of \<open>s\<close> before the first \<open>c\<close>, all of \<open>s\<close> without one.\<close>

definition before_first :: "char \<Rightarrow> string \<Rightarrow> string" where
  "before_first c s = takeWhile (\<lambda>x. x \<noteq> c) s"

text \<open>
  The first steps of \<^verbatim>\<open>urlsplit\<close>: leading C0 control characters and spaces are
  stripped, then tab, carriage return and line feed are removed everywhere.
\<close>

definition clean_url :: "string \<Rightarrow> string" where
  "clean_url url =
     filter (\<lambda>c. c \<notin> {CHR 0x09, CHR 0x0D, CHR 0x0A})
       (dropWhile (\<lambda>c. (of_char c :: nat) \<le> 32) url)"

text \<open>
  \<^verbatim>\<open>i = url.find(':')\<close>; when \<open>i > 0\<close>, the first character is an ASCII letter and all
  of \<^verbatim>\<open>url[:i]\<close> are scheme characters, the scheme is \<^verbatim>\<open>url[:i].lower()\<close> and the url
  continues after the colon.
\<close>

definition split_scheme :: "string \<Rightarrow> string \<times> string" where
  "split_scheme url =
     (let pre = before_first (CHR '':'') url in
      case url of
        [] \<Rightarrow> ('''', url)
      | c # _ \<Rightarrow>
          if CHR '':'' \<in> set url \<and> pre \<noteq> [] \<and> is_ascii_alpha c
             \<and> list_all (\<lambda>x. x \<in> set scheme_chars) pre
          then (map lower_char pre, drop (Suc (length pre)) url)
          else ('''', url))"

text \<open>
  \<^verbatim>\<open>_splitnetloc(url, 2)\<close> when the url starts with \<^verbatim>\<open>//\<close>: the netloc runs to the first
  of \<^verbatim>\<open>/ ? #\<close>. A netloc with one kind of bracket and not the other raises ValueError.
  (What \<^verbatim>\<open>urlsplit\<close> checks further on a netloc, the address between balanced
  brackets and the normal form of a netloc that is not ASCII, is not modelled.)
\<close>

definition split_netloc :: "string \<Rightarrow> error + string \<times> string" where
  "split_netloc url =
     (if take 2 url = ''//'' then
        (let is_delim = (\<lambda>c. c \<in> {CHR ''/'', CHR ''?'', CHR ''#''});
             netloc = takeWhile (\<lambda>c. \<not> is_delim c) (drop 2 url);
             rest = dropWhile (\<lambda>c. \<not> is_delim c) (drop 2 url)
         in if (CHR ''['' \<in> set netloc \<and> CHR '']'' \<notin> set netloc)
               \<or> (CHR '']'' \<in> set netloc \<and> CHR ''['' \<notin> set netloc)
            then Inl ValueError
            else Inr (netloc, rest))
      else Inr ('''', url))"

text \<open>
  \<^verbatim>\<open>_splitparams\<close>: with a slash in the path, the parameters start at the first
  semicolon at or after the last slash; without one, at the first semicolon.
\<close>

definition rfind_slash :: "string \<Rightarrow> nat" where
  "rfind_slash p = length p - Suc (length (takeWhile (\<lambda>c. c \<noteq> CHR ''/'') (rev p)))"

definition splitparams :: "string \<Rightarrow> string" where
  "splitparams url =
     (if CHR ''/'' \<in> set url then
        (let k = rfind_slash url in take k url @ before_first (CHR '';'') (drop k url))
      else before_first (CHR '';'') url)"

definition urlparse_path :: "string \<Rightarrow> error + string" where
  "urlparse_path url0 =
     (case split_scheme (clean_url url0) of
        (scheme, url1) \<Rightarrow>
          (case split_netloc url1 of
             Inl e \<Rightarrow> Inl e
           | Inr (netloc, url2) \<Rightarrow>
               (let url3 = before_first (CHR ''?'') (before_first (CHR ''#'') url2) in
                Inr (if scheme \<in> set uses_params \<and> CHR '';'' \<in> set url3
                     then splitparams url3 else url3))))"

subsection \<open>\<^verbatim>\<open>os.path\<close>\<close>

text \<open>
  \<^verbatim>\<open>os.path.basename\<close> and \<^verbatim>\<open>os.path.join\<close> as \<^verbatim>\<open>posixpath\<close> defines them:
  the base name is what follows the last slash; joining puts one slash between
  the parts, unless the first is empty or ends with a slash, and an absolute second
  part replaces the first.
\<close>

definition basename :: "string \<Rightarrow> string" where
  "basename p = rev (takeWhile (\<lambda>c. c \<noteq> CHR ''/'') (rev p))"

definition path_join :: "string \<Rightarrow> string \<Rightarrow> string" where
  "path_join a b =
     (if take 1 b = ''/'' then b
      else if a = [] \<or> last a = CHR ''/'' then a @ b
      else a @ ''/'' @ b)"

section \<open>The image fetcher's file name\<close>

text \<open>
  Lines 79 and 80 of \<^verbatim>\<open>download_image\<close>:
  \<^verbatim>\<open>original_filename = os.path.basename(urlparse(url).path)\<close> and
  \<^verbatim>\<open>new_filename = f"{product_id}_{media_id}_{original_filename}"\<close>.
  \<^verbatim>\<open>urlparse\<close> is called before the \<^verbatim>\<open>try\<close>, so its ValueError leaves
  \<^verbatim>\<open>download_image\<close>.
\<close>

definition original_filename :: "string \<Rightarrow> error + string" where
  "original_filename url = (case urlparse_path url of Inl e \<Rightarrow> Inl e | Inr p \<Rightarrow> Inr (basename p))"

definition new_filename :: "string \<Rightarrow> int \<Rightarrow> int \<Rightarrow> error + string" where
  "new_filename url product_id media_id =
     (case original_filename url of
        Inl e \<Rightarrow> Inl e
      | Inr orig \<Rightarrow> Inr (str_int product_id @ ''_'' @ str_int media_id @ ''_'' @ orig))"

section \<open>Data\<close>

text \<open>
  Modelled from the spec: the types of the columns, which the source does not declare
  (they are those of the database tables). The scenarios of the specification have
  \<open>ProductId\<close>, \<open>MediaId\<close> and \<open>Order\<close> as integers and \<open>URL\<close>, \<open>MediaResourceId\<close>
  and \<open>ContentType\<close> as text. A row of the data frame that \<^verbatim>\<open>fetch_data\<close> returns, with
  the columns that \<^verbatim>\<open>upload_file\<close> reads:
\<close>

record row =
  ProductId :: int
  MediaId :: int
  MediaResourceId :: string
  Order :: int
  URL :: string
  ContentType :: string

text \<open>
  \<^verbatim>\<open>float(os.getenv("REQUEST_DELAY", 1.0))\<close> gives a float. Its rounding to 64 bits is
  not modelled: a finite value is kept as the rational the text denotes.
\<close>

datatype pyfloat = Finite rat | PosInf | NegInf | NaN

record ConfigLoader =
  db_server :: "string option"
  db_database :: "string option"
  db_username :: "string option"
  db_password :: "string option"
  upload_url :: "string option"
  api_key :: "string option"
  request_delay :: pyfloat
  image_download_path :: string

record FileUploader =
  upload_url :: "string option"
  api_key :: "string option"
  request_delay :: pyfloat
  image_download_path :: string
  max_retries :: nat

text \<open>\<^verbatim>\<open>FileUploader.__init__\<close>.\<close>

definition FileUploader_init :: "ConfigLoader \<Rightarrow> FileUploader" where
  "FileUploader_init config =
     \<lparr> upload_url = ConfigLoader.upload_url config,
       api_key = ConfigLoader.api_key config,
       request_delay = ConfigLoader.request_delay config,
       image_download_path = ConfigLoader.image_download_path config,
       max_retries = 3 \<rparr>"

text \<open>
  The value \<^verbatim>\<open>upload_file\<close> returns: a tuple of three strings (status, message,
  response text).
\<close>

type_synonym outcome = "string \<times> string \<times> string"

text \<open>
  The multipart form (\<^verbatim>\<open>aiohttp.FormData\<close>): the file part with its bytes, file
  name and content type, then one text part per entry of \<^verbatim>\<open>data\<close>.
\<close>

datatype form_field =
  FileField string string string string
| TextField string string

record upload_request =
  target :: "string option"
  headers :: "(string \<times> string option) list"
  form :: "form_field list"
  timeout :: nat

section \<open>The world outside the program\<close>

text \<open>
  What the image server answers to \<^verbatim>\<open>requests.get(url, stream=True)\<close>: the call raises,
  or it returns a response with a status and a body that \<^verbatim>\<open>iter_content\<close> delivers in
  chunks; the flag is False when the iteration raises after the listed chunks.
\<close>

datatype get_answer = GetRaises | GetResponse int "string list" bool

text \<open>
  What one \<^verbatim>\<open>session.post\<close> ends in: a response with a status and the text
  \<^verbatim>\<open>response.text()\<close> returns, \<^verbatim>\<open>asyncio.TimeoutError\<close>, or another exception.
\<close>

datatype post_answer = PostResponse int string | PostTimeout | PostException

text \<open>
  The answers one pipeline gets. The upload endpoint sees the number of the attempt
  and the whole request, and \<open>can_open\<close> says whether \<^verbatim>\<open>open(file_path, 'wb')\<close> succeeds.
\<close>

record net =
  http_get :: "string \<Rightarrow> get_answer"
  can_open :: "string \<Rightarrow> bool"
  http_post :: "nat \<Rightarrow> upload_request \<Rightarrow> post_answer"

text \<open>
  The effects of a pipeline, oldest first. \<open>Post t r\<close> is a POST of request \<open>r\<close> sent
  when the clock shows \<open>t\<close>.
\<close>

datatype event =
  Get string
| OpenW string
| Write string string
| ReadFile string
| Post nat upload_request
| Sleep nat

text \<open>
  The state a pipeline works on: the files on disk, a clock that counts time units,
  and the effects so far. The clock moves when the pipeline sleeps; the time the
  requests themselves take is not counted. Log lines are left out.
\<close>

record world =
  files :: "string \<rightharpoonup> string"
  clock :: nat
  trace :: "event list"

definition emit :: "event list \<Rightarrow> world \<Rightarrow> world" where
  "emit es w = w\<lparr>trace := trace w @ es\<rparr>"

text \<open>\<^verbatim>\<open>await asyncio.sleep(n)\<close>.\<close>

definition sleep :: "nat \<Rightarrow> world \<Rightarrow> world" where
  "sleep n w = emit [Sleep n] (w\<lparr>clock := clock w + n\<rparr>)"

text \<open>
  \<^verbatim>\<open>datetime.datetime.now(datetime.UTC).isoformat()\<close>: the text of the clock's reading.
  The calendar form is not modelled; the text is the decimal count of time units.
\<close>

definition now_isoformat :: "world \<Rightarrow> string" where
  "now_isoformat w = str_nat (clock w)"

section \<open>\<^verbatim>\<open>FileUploader.download_image\<close>\<close>

text \<open>
  Returns \<open>Inl\<close> for an exception that leaves the function, \<open>Inr None\<close> for
  \<^verbatim>\<open>(None, None)\<close> and \<open>Inr (Some (file_path, new_filename))\<close> otherwise.
  The \<^verbatim>\<open>try\<close> covers the GET, the opening of the file and the writing of the chunks.
\<close>

definition download_image ::
  "FileUploader \<Rightarrow> net \<Rightarrow> string \<Rightarrow> int \<Rightarrow> int \<Rightarrow> world
     \<Rightarrow> (error + (string \<times> string) option) \<times> world" where
  "download_image self env url product_id media_id w =
     (case new_filename url product_id media_id of
        Inl e \<Rightarrow> (Inl e, w)
      | Inr name \<Rightarrow>
          (let file_path = path_join (image_download_path self) name;
               w1 = emit [Get url] w
           in case http_get env url of
                GetRaises \<Rightarrow> (Inr None, w1)
              | GetResponse status_code chunks whole \<Rightarrow>
                  if status_code = 200 then
                    if can_open env file_path then
                      (let w2 = emit (OpenW file_path # map (Write file_path) chunks)
                                  (w1\<lparr>files := (files w1)(file_path \<mapsto> concat chunks)\<rparr>)
                       in if whole then (Inr (Some (file_path, name)), w2)
                          else (Inr None, w2))
                    else (Inr None, w1)
                  else (Inr None, w1)))"

section \<open>\<^verbatim>\<open>FileUploader.upload_file\<close>\<close>

text \<open>
  The request of \<^verbatim>\<open>session.post(self.upload_url, headers=headers, data=form, timeout=10)\<close>.
\<close>

definition post_request ::
  "FileUploader \<Rightarrow> (string \<times> string option) list \<Rightarrow> form_field list \<Rightarrow> upload_request" where
  "post_request self hdrs frm =
     \<lparr> target = upload_url self, headers = hdrs, form = frm, timeout = 10 \<rparr>"

text \<open>
  The loop \<^verbatim>\<open>for attempt in range(self.max_retries)\<close>, over the list of the attempt
  numbers still to run. Every attempt posts the same \<open>form\<close> and \<open>headers\<close>, the ones
  built before the loop. Each of the three failure branches sleeps \<open>2 ** attempt\<close>.
\<close>

fun post_attempts ::
  "FileUploader \<Rightarrow> net \<Rightarrow> (string \<times> string option) list \<Rightarrow> form_field list \<Rightarrow> nat list
     \<Rightarrow> world \<Rightarrow> outcome \<times> world" where
  "post_attempts self env hdrs frm [] w = ((''Error'', ''Max retries reached'', ''''), w)"
| "post_attempts self env hdrs frm (attempt # rest) w =
     (let req = post_request self hdrs frm;
          w1 = emit [Post (clock w) req] w
      in case http_post env attempt req of
           PostResponse status response_text \<Rightarrow>
             if status = 200 then ((''Success'', ''Uploaded successfully'', response_text), w1)
             else post_attempts self env hdrs frm rest (sleep (2 ^ attempt) w1)
         | PostTimeout \<Rightarrow> post_attempts self env hdrs frm rest (sleep (2 ^ attempt) w1)
         | PostException \<Rightarrow> post_attempts self env hdrs frm rest (sleep (2 ^ attempt) w1))"

text \<open>The dictionary \<^verbatim>\<open>data\<close>, each value through \<^verbatim>\<open>str\<close>, in the order of its keys.\<close>

definition form_data :: "row \<Rightarrow> string \<Rightarrow> (string \<times> string) list" where
  "form_data r current_date =
     [(''TenantId'', ''2''),
      (''EntityType'', ''product''),
      (''EntityId'', str_int (ProductId r)),
      (''MediaResourceId'', MediaResourceId r),
      (''Order'', str_int (Order r)),
      (''InternalCode'', str_int (ProductId r)),
      (''MediaType'', ''image''),
      (''Date'', current_date)]"

text \<open>
  The form: \<^verbatim>\<open>form.add_field("FormFile", file.read(), filename=file_name,
  content_type=row["ContentType"])\<close>, then \<^verbatim>\<open>form.add_field(key, str(value))\<close> for every
  entry of \<^verbatim>\<open>data\<close>. And the dictionary \<^verbatim>\<open>headers\<close>.
\<close>

definition build_form :: "row \<Rightarrow> string \<Rightarrow> string \<Rightarrow> string \<Rightarrow> form_field list" where
  "build_form r bytes file_name current_date =
     FileField ''FormFile'' bytes file_name (ContentType r)
     # map (\<lambda>(key, v). TextField key v) (form_data r current_date)"

definition build_headers :: "FileUploader \<Rightarrow> (string \<times> string option) list" where
  "build_headers self = [(''Accept'', Some ''application/json''), (''api-key'', api_key self)]"

text \<open>
  \<^verbatim>\<open>upload_file\<close>: the download, the test \<^verbatim>\<open>if not file_path\<close> (None and the empty
  string are false), one reading of the clock, one reading of the file, the form and
  the headers, then the loop. \<open>Inl\<close> is an exception that leaves the coroutine.
\<close>

definition upload_file :: "FileUploader \<Rightarrow> net \<Rightarrow> row \<Rightarrow> world \<Rightarrow> (error + outcome) \<times> world" where
  "upload_file self env r w =
     (case download_image self env (URL r) (ProductId r) (MediaId r) w of
        (Inl e, w1) \<Rightarrow> (Inl e, w1)
      | (Inr None, w1) \<Rightarrow> (Inr (''Error'', ''Failed to download image'', ''''), w1)
      | (Inr (Some (file_path, file_name)), w1) \<Rightarrow>
          if file_path = [] then (Inr (''Error'', ''Failed to download image'', ''''), w1)
          else
            (let current_date = now_isoformat w1 in
             case files w1 file_path of
               None \<Rightarrow> (Inl FileNotFoundError, w1)
             | Some bytes \<Rightarrow>
                 (let w2 = emit [ReadFile file_path] w1;
                      frm = build_form r bytes file_name current_date;
                      hdrs = build_headers self
                  in case post_attempts self env hdrs frm [0 ..< max_retries self] w2 of
                       (out, w3) \<Rightarrow> (Inr out, w3))))"

section \<open>\<^verbatim>\<open>ProcessManager.run\<close>\<close>

text \<open>
  \<^verbatim>\<open>tasks = [self.uploader.upload_file(session, row) for _, row in df.iterrows()]\<close>.
  Each coroutine runs without a break from its start to its first POST, so the
  downloads and the readings of the files happen one row after the other, in the order
  of the rows; the disk goes from one task to the next. Every task has its own clock
  reading, started at \<open>t0\<close>, and its own list of effects. Task \<open>i\<close> gets the answers
  \<open>envs i\<close>.
\<close>

fun run_tasks ::
  "FileUploader \<Rightarrow> (nat \<Rightarrow> net) \<Rightarrow> nat \<Rightarrow> row list \<Rightarrow> (string \<rightharpoonup> string) \<Rightarrow> nat
     \<Rightarrow> ((error + outcome) \<times> event list) list \<times> (string \<rightharpoonup> string)" where
  "run_tasks up envs i [] disk t0 = ([], disk)"
| "run_tasks up envs i (r # rs) disk t0 =
     (case upload_file up (envs i) r \<lparr> files = disk, clock = t0, trace = [] \<rparr> of
        (res, w) \<Rightarrow>
          (case run_tasks up envs (Suc i) rs (files w) t0 of
             (rest, disk') \<Rightarrow> ((res, trace w) # rest, disk')))"

text \<open>
  \<^verbatim>\<open>await asyncio.gather(*tasks)\<close>, called without \<^verbatim>\<open>return_exceptions\<close>: the results
  in the order of the tasks, or the exception of a task that raised.
\<close>

fun gather :: "(error + 'a) list \<Rightarrow> error + 'a list" where
  "gather [] = Inr []"
| "gather (Inl e # xs) = Inl e"
| "gather (Inr x # xs) = (case gather xs of Inl e \<Rightarrow> Inl e | Inr ys \<Rightarrow> Inr (x # ys))"

text \<open>
  What a run that reaches its last line leaves: the local variable \<open>results\<close>, the data
  frame that \<^verbatim>\<open>df.to_excel("output.xlsx", ...)\<close> writes, and the effects of each task.
\<close>

record batch =
  results :: "outcome list"
  output_xlsx :: "row list"
  traces :: "event list list"

definition run ::
  "FileUploader \<Rightarrow> row list \<Rightarrow> (nat \<Rightarrow> net) \<Rightarrow> (string \<rightharpoonup> string) \<Rightarrow> nat
     \<Rightarrow> (error + batch) \<times> (string \<rightharpoonup> string)" where
  "run uploader df envs disk t0 =
     (case run_tasks uploader envs 0 df disk t0 of
        (tasks, disk') \<Rightarrow>
          (case gather (map fst tasks) of
             Inl e \<Rightarrow> (Inl e, disk')
           | Inr rs \<Rightarrow> (Inr \<lparr> results = rs, output_xlsx = df, traces = map snd tasks \<rparr>, disk')))"

section \<open>Configuration and start of the program\<close>

subsection \<open>\<^verbatim>\<open>float\<close> of a string\<close>

text \<open>
  \<^verbatim>\<open>float(s)\<close> for a string: an underscore may stand only between two digits and is
  dropped; white space around the text is stripped; then an optional sign and either
  \<^verbatim>\<open>inf\<close>, \<^verbatim>\<open>infinity\<close>, \<^verbatim>\<open>nan\<close> in any case, or digits with an optional point and an
  optional exponent, with at least one digit before the exponent. Anything else raises
  ValueError (\<open>None\<close> here).
\<close>

definition is_digit :: "char \<Rightarrow> bool" where
  "is_digit c = (c \<in> set ''0123456789'')"

definition digit_val :: "char \<Rightarrow> nat" where
  "digit_val c = of_char c - 48"

definition nat_of_digits :: "string \<Rightarrow> nat" where
  "nat_of_digits ds = foldl (\<lambda>a c. 10 * a + digit_val c) 0 ds"

definition is_space :: "char \<Rightarrow> bool" where
  "is_space c = ((of_char c :: nat) \<in> {9, 10, 11, 12, 13, 32, 133, 160})"

definition strip :: "string \<Rightarrow> string" where
  "strip s = rev (dropWhile is_space (rev (dropWhile is_space s)))"

fun underscores_ok :: "char \<Rightarrow> string \<Rightarrow> bool" where
  "underscores_ok prev [] = (prev \<noteq> CHR ''_'')"
| "underscores_ok prev (p # ps) =
     (if p = CHR ''_'' then is_digit prev \<and> underscores_ok p ps
      else (prev = CHR ''_'' \<longrightarrow> is_digit p) \<and> underscores_ok p ps)"

definition parse_sign :: "string \<Rightarrow> bool \<times> string" where
  "parse_sign s =
     (case s of
        [] \<Rightarrow> (False, [])
      | c # cs \<Rightarrow> if c = CHR ''-'' then (True, cs) else if c = CHR ''+'' then (False, cs)
                 else (False, s))"

definition parse_exponent :: "string \<Rightarrow> int option" where
  "parse_exponent s =
     (case s of
        [] \<Rightarrow> Some 0
      | c # cs \<Rightarrow>
          if c = CHR ''e'' \<or> c = CHR ''E'' then
            (case parse_sign cs of
               (neg, ds) \<Rightarrow>
                 if ds \<noteq> [] \<and> list_all is_digit ds
                 then Some (if neg then - int (nat_of_digits ds) else int (nat_of_digits ds))
                 else None)
          else None)"

definition scale10 :: "rat \<Rightarrow> int \<Rightarrow> rat" where
  "scale10 m e = (if 0 \<le> e then m * 10 ^ nat e else m / 10 ^ nat (- e))"

definition py_float :: "string \<Rightarrow> pyfloat option" where
  "py_float s0 =
     (if \<not> underscores_ok (CHR 0x00) s0 then None
      else
        (case parse_sign (strip (filter (\<lambda>c. c \<noteq> CHR ''_'') s0)) of
           (neg, t) \<Rightarrow>
             (let l = map lower_char t in
              if l = ''inf'' \<or> l = ''infinity'' then Some (if neg then NegInf else PosInf)
              else if l = ''nan'' then Some NaN
              else
                (let ip = takeWhile is_digit t;
                     t1 = dropWhile is_digit t;
                     fp = (case t1 of [] \<Rightarrow> []
                           | c # cs \<Rightarrow> if c = CHR ''.'' then takeWhile is_digit cs else []);
                     t2 = (case t1 of [] \<Rightarrow> []
                           | c # cs \<Rightarrow> if c = CHR ''.'' then dropWhile is_digit cs else t1)
                 in if ip = [] \<and> fp = [] then None
                    else
                      (case parse_exponent t2 of
                         None \<Rightarrow> None
                       | Some e \<Rightarrow>
                           (let m = scale10 (of_nat (nat_of_digits (ip @ fp)))
                                      (e - int (length fp))
                            in Some (Finite (if neg then - m else m))))))))"

subsection \<open>\<^verbatim>\<open>ConfigLoader.__init__\<close>\<close>

text \<open>
  \<open>environ\<close> is the process environment after \<^verbatim>\<open>load_dotenv()\<close> and \<open>cwd\<close> the working
  directory. \<^verbatim>\<open>os.getenv\<close> gives None for a variable that is not set;
  \<^verbatim>\<open>REQUEST_DELAY\<close> defaults to the float 1.0 and \<^verbatim>\<open>IMAGE_DOWNLOAD_PATH\<close> to
  \<^verbatim>\<open>os.path.join(os.getcwd(), "images")\<close>. A value of \<^verbatim>\<open>REQUEST_DELAY\<close> that \<^verbatim>\<open>float\<close>
  rejects raises ValueError. The creation of the directory is taken to succeed.
\<close>

definition ConfigLoader_init :: "(string \<rightharpoonup> string) \<Rightarrow> string \<Rightarrow> error + ConfigLoader" where
  "ConfigLoader_init environ cwd =
     (case (case environ ''REQUEST_DELAY'' of None \<Rightarrow> Some (Finite 1) | Some s \<Rightarrow> py_float s) of
        None \<Rightarrow> Inl ValueError
      | Some delay \<Rightarrow>
          Inr \<lparr> db_server = environ ''DB_SERVER'',
                db_database = environ ''DB_DATABASE'',
                db_username = environ ''DB_USERNAME'',
                db_password = environ ''DB_PASSWORD'',
                upload_url = environ ''UPLOAD_URL'',
                api_key = environ ''API_KEY'',
                request_delay = delay,
                image_download_path =
                  (case environ ''IMAGE_DOWNLOAD_PATH'' of
                     None \<Rightarrow> path_join cwd ''images'' | Some p \<Rightarrow> p) \<rparr>)"

subsection \<open>\<^verbatim>\<open>DatabaseConnection\<close> and the program\<close>

text \<open>An f-string renders None as the text \<^verbatim>\<open>None\<close>.\<close>

definition fmt :: "string option \<Rightarrow> string" where
  "fmt v = (case v of None \<Rightarrow> ''None'' | Some s \<Rightarrow> s)"

definition conn_str :: "ConfigLoader \<Rightarrow> string" where
  "conn_str config =
     ''DRIVER={SQL Server};''
     @ ''SERVER='' @ fmt (db_server config) @ '';''
     @ ''DATABASE='' @ fmt (db_database config) @ '';''
     @ ''UID='' @ fmt (db_username config) @ '';''
     @ ''PWD='' @ fmt (db_password config) @ '';''"

text \<open>
  \<^verbatim>\<open>asyncio.run(ProcessManager().run())\<close>. The database is outside the program:
  \<open>source\<close> gives, for a connection string, the rows that the query returns, or the
  exception that \<^verbatim>\<open>pyodbc\<close> raises.
\<close>

definition main ::
  "(string \<rightharpoonup> string) \<Rightarrow> string \<Rightarrow> (string \<Rightarrow> error + row list) \<Rightarrow> (nat \<Rightarrow> net)
     \<Rightarrow> (string \<rightharpoonup> string) \<Rightarrow> nat \<Rightarrow> (error + batch) \<times> (string \<rightharpoonup> string)" where
  "main environ cwd source envs disk t0 =
     (case ConfigLoader_init environ cwd of
        Inl e \<Rightarrow> (Inl e, disk)
      | Inr config \<Rightarrow>
          (case source (conn_str config) of
             Inl e \<Rightarrow> (Inl e, disk)
           | Inr df \<Rightarrow> run (FileUploader_init config) df envs disk t0))"

section \<open>Reading a list of effects\<close>

text \<open>The POSTs (with the clock reading when sent), the sleeps, the GETs and the file
  operations of a list of effects, each in the order they happened.\<close>

definition posts_of :: "event list \<Rightarrow> (nat \<times> upload_request) list" where
  "posts_of es = concat (map (\<lambda>e. case e of Post t r \<Rightarrow> [(t, r)] | _ \<Rightarrow> []) es)"

definition sleeps_of :: "event list \<Rightarrow> nat list" where
  "sleeps_of es = concat (map (\<lambda>e. case e of Sleep n \<Rightarrow> [n] | _ \<Rightarrow> []) es)"

definition gets_of :: "event list \<Rightarrow> string list" where
  "gets_of es = concat (map (\<lambda>e. case e of Get u \<Rightarrow> [u] | _ \<Rightarrow> []) es)"

definition reads_of :: "event list \<Rightarrow> string list" where
  "reads_of es = concat (map (\<lambda>e. case e of ReadFile p \<Rightarrow> [p] | _ \<Rightarrow> []) es)"

definition opens_of :: "event list \<Rightarrow> string list" where
  "opens_of es = concat (map (\<lambda>e. case e of OpenW p \<Rightarrow> [p] | _ \<Rightarrow> []) es)"

text \<open>The \<^verbatim>\<open>Date\<close> field of a request, and the bytes of its file part.\<close>

definition text_fields :: "form_field list \<Rightarrow> (string \<times> string) list" where
  "text_fields fs = concat (map (\<lambda>f. case f of TextField k v \<Rightarrow> [(k, v)] | _ \<Rightarrow> []) fs)"

definition date_of :: "upload_request \<Rightarrow> string option" where
  "date_of r = map_of (text_fields (form r)) ''Date''"

definition file_parts :: "upload_request \<Rightarrow> string list" where
  "file_parts r = concat (map (\<lambda>f. case f of FileField k b n c \<Rightarrow> [b] | _ \<Rightarrow> []) (form r))"

text \<open>For each POST, when it was sent and the \<^verbatim>\<open>Date\<close> it carried.\<close>

definition stamps :: "event list \<Rightarrow> (nat \<times> string option) list" where
  "stamps es = map (\<lambda>(t, r). (t, date_of r)) (posts_of es)"

text \<open>
  What the loop makes of an answer: the response text of a status 200, and nothing for
  any other status, a timeout or an exception.
\<close>

definition verdict :: "post_answer \<Rightarrow> string option" where
  "verdict a = (case a of PostResponse status body \<Rightarrow> if status = 200 then Some body else None
                | PostTimeout \<Rightarrow> None | PostException \<Rightarrow> None)"

text \<open>An attempt fails when the answer to its POST has no verdict.\<close>

definition fails ::
  "FileUploader \<Rightarrow> net \<Rightarrow> (string \<times> string option) list \<Rightarrow> form_field list \<Rightarrow> nat \<Rightarrow> bool" where
  "fails self env hdrs frm attempt =
     (verdict (http_post env attempt (post_request self hdrs frm)) = None)"



text \<open>
  The world after a download that succeeded and the reading of the file that follows
  it: the GET, the file opened and written chunk by chunk, then read once.
\<close>

definition after_fetch :: "string \<Rightarrow> string \<Rightarrow> string list \<Rightarrow> world \<Rightarrow> world" where
  "after_fetch url path chunks w =
     emit ([Get url, OpenW path] @ map (Write path) chunks @ [ReadFile path])
       (w\<lparr>files := (files w)(path \<mapsto> concat chunks)\<rparr>)"

text \<open>
  A setting of \<^verbatim>\<open>REQUEST_DELAY\<close> that \<^verbatim>\<open>ConfigLoader.__init__\<close> accepts: the variable
  is not set, or its text is one that \<^verbatim>\<open>float\<close> converts.
\<close>

definition delay_ok :: "string option \<Rightarrow> bool" where
  "delay_ok v = (case v of None \<Rightarrow> True | Some s \<Rightarrow> py_float s \<noteq> None)"

section \<open>Scenarios\<close>

text \<open>The record, the settings and the servers of the end-to-end scenarios.\<close>

definition example_row :: row where
  "example_row = \<lparr> ProductId = 1, MediaId = 9, MediaResourceId = ''r1'', Order = 0,
                    URL = ''http://x/a.png'', ContentType = ''image/png'' \<rparr>"

definition broken_url_row :: row where
  "broken_url_row = example_row \<lparr> MediaId := 10, URL := ''http://['' \<rparr>"

definition example_environ :: "string \<rightharpoonup> string" where
  "example_environ = [''UPLOAD_URL'' \<mapsto> ''http://up/api'', ''API_KEY'' \<mapsto> ''k'',
                      ''IMAGE_DOWNLOAD_PATH'' \<mapsto> ''/img'']"

definition example_uploader :: FileUploader where
  "example_uploader =
     \<lparr> upload_url = Some ''http://up/api'', api_key = Some ''k'', request_delay = Finite 1,
       image_download_path = ''/img'', max_retries = 3 \<rparr>"

definition server :: "get_answer \<Rightarrow> (nat \<Rightarrow> post_answer) \<Rightarrow> net" where
  "server g p = \<lparr> http_get = (\<lambda>url. g), can_open = (\<lambda>path. True), http_post = (\<lambda>n req. p n) \<rparr>"

definition all_tasks :: "net \<Rightarrow> nat \<Rightarrow> net" where
  "all_tasks env i = env"

definition png :: get_answer where
  "png = GetResponse 200 [''PNG'', ''...''] True"

definition not_found :: get_answer where
  "not_found = GetResponse 404 [] True"


definition always_500 :: "nat \<Rightarrow> post_answer" where
  "always_500 n = PostResponse 500 ''no''"

definition second_time :: "nat \<Rightarrow> post_answer" where
  "second_time n = (if n = 0 then PostTimeout else PostResponse 200 ''{id:42}'')"

definition first_time :: "nat \<Rightarrow> post_answer" where
  "first_time n = PostResponse 200 ''{id:42}''"

definition start :: world where
  "start = \<lparr> files = Map.empty, clock = 5, trace = [] \<rparr>"

definition one_table :: "row list \<Rightarrow> string \<Rightarrow> error + row list" where
  "one_table df conn = Inr df"

definition always_timeout :: "nat \<Rightarrow> post_answer" where
  "always_timeout n = PostTimeout"

section \<open>Properties of the retry loop\<close>


lemma posts_of_append: "posts_of (a @ b) = posts_of a @ posts_of b" by (simp add: posts_of_def)
lemma sleeps_of_append: "sleeps_of (a @ b) = sleeps_of a @ sleeps_of b" by (simp add: sleeps_of_def)
lemma gets_of_append: "gets_of (a @ b) = gets_of a @ gets_of b" by (simp add: gets_of_def)
lemma reads_of_append: "reads_of (a @ b) = reads_of a @ reads_of b" by (simp add: reads_of_def)
lemma opens_of_append: "opens_of (a @ b) = opens_of a @ opens_of b" by (simp add: opens_of_def)
lemmas obs_append = posts_of_append sleeps_of_append gets_of_append reads_of_append opens_of_append

lemma world_emit: "trace (emit es w) = trace w @ es" "files (emit es w) = files w" "clock (emit es w) = clock w"
  by (simp_all add: emit_def)
lemma world_sleep: "trace (sleep n w) = trace w @ [Sleep n]" "files (sleep n w) = files w" "clock (sleep n w) = clock w + n"
  by (simp_all add: sleep_def emit_def)

lemma pa_step_fail:
  "fails self env hdrs frm a \<Longrightarrow>
   post_attempts self env hdrs frm (a # rest) w =
   post_attempts self env hdrs frm rest (sleep (2 ^ a) (emit [Post (clock w) (post_request self hdrs frm)] w))"
  by (simp add: fails_def verdict_def Let_def split: post_answer.splits if_splits)

lemma pa_step_ok:
  "verdict (http_post env a (post_request self hdrs frm)) = Some body \<Longrightarrow>
   post_attempts self env hdrs frm (a # rest) w =
   ((''Success'', ''Uploaded successfully'', body), emit [Post (clock w) (post_request self hdrs frm)] w)"
  by (simp add: verdict_def Let_def split: post_answer.splits if_splits)

lemma not_fails: "\<not> fails self env hdrs frm a \<Longrightarrow> \<exists>body. verdict (http_post env a (post_request self hdrs frm)) = Some body"
  by (simp add: fails_def)

lemma pa_outcome:
  "fst (post_attempts self env hdrs frm as w) =
     (case dropWhile (fails self env hdrs frm) as of
        [] \<Rightarrow> (''Error'', ''Max retries reached'', '''')
      | a # _ \<Rightarrow> (''Success'', ''Uploaded successfully'',
                  the (verdict (http_post env a (post_request self hdrs frm)))))"
proof (induction as arbitrary: w)
  case Nil then show ?case by simp
next
  case (Cons a as)
  show ?case
  proof (cases "fails self env hdrs frm a")
    case True
    then show ?thesis using Cons.IH by (simp add: pa_step_fail del: post_attempts.simps)
  next
    case False
    then obtain body where "verdict (http_post env a (post_request self hdrs frm)) = Some body"
      using not_fails by blast
    then show ?thesis using False by (simp add: pa_step_ok del: post_attempts.simps)
  qed
qed

lemma pa_sleeps:
  "sleeps_of (trace (snd (post_attempts self env hdrs frm as w))) =
     sleeps_of (trace w) @ map (\<lambda>a. 2 ^ a) (takeWhile (fails self env hdrs frm) as)"
proof (induction as arbitrary: w)
  case Nil then show ?case by simp
next
  case (Cons a as)
  show ?case
  proof (cases "fails self env hdrs frm a")
    case True
    then show ?thesis using Cons.IH
      by (simp add: pa_step_fail world_sleep world_emit obs_append sleeps_of_def del: post_attempts.simps)
  next
    case False
    then obtain body where "verdict (http_post env a (post_request self hdrs frm)) = Some body"
      using not_fails by blast
    then show ?thesis using False
      by (simp add: pa_step_ok world_emit obs_append sleeps_of_def del: post_attempts.simps)
  qed
qed

lemma pa_posts:
  "map snd (posts_of (trace (snd (post_attempts self env hdrs frm as w)))) =
     map snd (posts_of (trace w)) @
     replicate (if dropWhile (fails self env hdrs frm) as = [] then length as
                else Suc (length (takeWhile (fails self env hdrs frm) as)))
       (post_request self hdrs frm)"
proof (induction as arbitrary: w)
  case Nil then show ?case by simp
next
  case (Cons a as)
  show ?case
  proof (cases "fails self env hdrs frm a")
    case True
    then show ?thesis using Cons.IH
      by (simp add: pa_step_fail world_sleep world_emit obs_append posts_of_def replicate_app_Cons_same del: post_attempts.simps)
  next
    case False
    then obtain body where "verdict (http_post env a (post_request self hdrs frm)) = Some body"
      using not_fails by blast
    then show ?thesis using False
      by (simp add: pa_step_ok world_emit obs_append posts_of_def del: post_attempts.simps)
  qed
qed

lemma pa_frame:
  "files (snd (post_attempts self env hdrs frm as w)) = files w
   \<and> gets_of (trace (snd (post_attempts self env hdrs frm as w))) = gets_of (trace w)
   \<and> reads_of (trace (snd (post_attempts self env hdrs frm as w))) = reads_of (trace w)
   \<and> opens_of (trace (snd (post_attempts self env hdrs frm as w))) = opens_of (trace w)
   \<and> clock w \<le> clock (snd (post_attempts self env hdrs frm as w))
   \<and> (\<exists>evs. trace (snd (post_attempts self env hdrs frm as w)) = trace w @ evs)"
proof (induction as arbitrary: w)
  case Nil then show ?case by simp
next
  case (Cons a as)
  show ?case
  proof (cases "fails self env hdrs frm a")
    case True
    then show ?thesis using Cons.IH[of "sleep (2 ^ a) (emit [Post (clock w) (post_request self hdrs frm)] w)"]
      by (auto simp add: pa_step_fail world_sleep world_emit obs_append gets_of_def reads_of_def opens_of_def simp del: post_attempts.simps)
  next
    case False
    then obtain body where "verdict (http_post env a (post_request self hdrs frm)) = Some body"
      using not_fails by blast
    then show ?thesis using False
      by (simp add: pa_step_ok world_emit obs_append gets_of_def reads_of_def opens_of_def del: post_attempts.simps)
  qed
qed


lemma pa_verdict_only:
  "\<forall>j req. verdict (http_post env j req) = verdict (http_post env' j req) \<Longrightarrow>
   post_attempts self env hdrs frm as w = post_attempts self env' hdrs frm as w"
proof (induction as arbitrary: w)
  case Nil then show ?case by simp
next
  case (Cons a as)
  have eq: "verdict (http_post env a (post_request self hdrs frm))
            = verdict (http_post env' a (post_request self hdrs frm))"
    using Cons.prems by blast
  show ?case
  proof (cases "verdict (http_post env a (post_request self hdrs frm))")
    case None
    then have "fails self env hdrs frm a" "fails self env' hdrs frm a"
      using eq by (simp_all add: fails_def)
    then show ?thesis using Cons.IH[OF Cons.prems] by (simp only: pa_step_fail)
  next
    case (Some body)
    then show ?thesis using eq by (simp only: pa_step_ok)
  qed
qed

lemma takeWhile_upt:
  "k \<le> n \<Longrightarrow> \<forall>j<k. P j \<Longrightarrow> (k < n \<longrightarrow> \<not> P k) \<Longrightarrow> takeWhile P [0..<n] = [0..<k]"
proof -
  assume kn: "k \<le> n" and pre: "\<forall>j<k. P j" and stop: "k < n \<longrightarrow> \<not> P k"
  have split: "[0..<n] = [0..<k] @ [k..<n]" using kn upt_add_eq_append[of 0 k "n - k"] by simp
  have tl: "takeWhile P [k..<n] = []" using stop by (cases "k < n") (simp_all add: upt_conv_Cons)
  have "\<And>x. x \<in> set [0..<k] \<Longrightarrow> P x" using pre by simp
  then have "takeWhile P ([0..<k] @ [k..<n]) = [0..<k] @ takeWhile P [k..<n]"
    by (rule takeWhile_append2)
  then show ?thesis using split tl by simp
qed

lemma dropWhile_upt:
  "k \<le> n \<Longrightarrow> \<forall>j<k. P j \<Longrightarrow> (k < n \<longrightarrow> \<not> P k) \<Longrightarrow> dropWhile P [0..<n] = [k..<n]"
proof -
  assume kn: "k \<le> n" and pre: "\<forall>j<k. P j" and stop: "k < n \<longrightarrow> \<not> P k"
  have split: "[0..<n] = [0..<k] @ [k..<n]" using kn upt_add_eq_append[of 0 k "n - k"] by simp
  have tl: "dropWhile P [k..<n] = [k..<n]" using stop by (cases "k < n") (simp_all add: upt_conv_Cons)
  have "\<And>x. x \<in> set [0..<k] \<Longrightarrow> P x" using pre by simp
  then have "dropWhile P ([0..<k] @ [k..<n]) = dropWhile P [k..<n]"
    by (rule dropWhile_append2)
  then show ?thesis using split tl by simp
qed

text \<open>
  Claim C4. The loop of \<^verbatim>\<open>upload_file\<close> over \<^verbatim>\<open>range(self.max_retries)\<close>, for any answers
  of the endpoint. If attempt \<open>k\<close> is the first to get status 200, the result is
  \<^verbatim>\<open>("Success", "Uploaded successfully", response_text)\<close> with the text of that
  response, \<open>k + 1\<close> requests have been posted and the sleeps are those after the \<open>k\<close>
  failed attempts: nothing follows the success. If no attempt gets status 200, the
  result is \<^verbatim>\<open>("Error", "Max retries reached", "")\<close> after \<open>max_retries\<close> requests. And
  the loop looks at an answer only through its verdict: two endpoints whose answers
  differ only in how they fail (any other status, a timeout, an exception) give the
  same result and the same effects.
\<close>

theorem upload_returns_first_200_or_max_retries:
  "(\<forall>k body. k < max_retries self \<and> (\<forall>j<k. fails self env hdrs frm j)
        \<and> verdict (http_post env k (post_request self hdrs frm)) = Some body \<longrightarrow>
      fst (post_attempts self env hdrs frm [0 ..< max_retries self] w)
        = (''Success'', ''Uploaded successfully'', body)
      \<and> map snd (posts_of (trace (snd (post_attempts self env hdrs frm [0 ..< max_retries self] w))))
        = map snd (posts_of (trace w)) @ replicate (Suc k) (post_request self hdrs frm)
      \<and> sleeps_of (trace (snd (post_attempts self env hdrs frm [0 ..< max_retries self] w)))
        = sleeps_of (trace w) @ map (\<lambda>j. 2 ^ j) [0 ..< k])
   \<and> ((\<forall>j<max_retries self. fails self env hdrs frm j) \<longrightarrow>
      fst (post_attempts self env hdrs frm [0 ..< max_retries self] w)
        = (''Error'', ''Max retries reached'', '''')
      \<and> map snd (posts_of (trace (snd (post_attempts self env hdrs frm [0 ..< max_retries self] w))))
        = map snd (posts_of (trace w)) @ replicate (max_retries self) (post_request self hdrs frm)
      \<and> sleeps_of (trace (snd (post_attempts self env hdrs frm [0 ..< max_retries self] w)))
        = sleeps_of (trace w) @ map (\<lambda>j. 2 ^ j) [0 ..< max_retries self])
   \<and> ((\<forall>j req. verdict (http_post env j req) = verdict (http_post env' j req)) \<longrightarrow>
      post_attempts self env hdrs frm [0 ..< max_retries self] w
        = post_attempts self env' hdrs frm [0 ..< max_retries self] w)"
proof (intro conjI allI impI)
  fix k body
  assume h: "k < max_retries self \<and> (\<forall>j<k. fails self env hdrs frm j)
        \<and> verdict (http_post env k (post_request self hdrs frm)) = Some body"
  let ?n = "max_retries self" and ?P = "fails self env hdrs frm"
  from h have nf: "\<not> ?P k" by (simp add: fails_def)
  have tw: "takeWhile ?P [0..<?n] = [0..<k]" using h nf by (intro takeWhile_upt) auto
  have dw: "dropWhile ?P [0..<?n] = [k..<?n]" using h nf by (intro dropWhile_upt) auto
  have dw': "dropWhile ?P [0..<?n] = k # [Suc k..<?n]" using dw h by (simp add: upt_conv_Cons)
  show "fst (post_attempts self env hdrs frm [0 ..< ?n] w) = (''Success'', ''Uploaded successfully'', body)"
    using h by (simp add: pa_outcome dw')
  show "map snd (posts_of (trace (snd (post_attempts self env hdrs frm [0 ..< ?n] w))))
        = map snd (posts_of (trace w)) @ replicate (Suc k) (post_request self hdrs frm)"
    by (simp only: pa_posts tw dw') simp
  show "sleeps_of (trace (snd (post_attempts self env hdrs frm [0 ..< ?n] w)))
        = sleeps_of (trace w) @ map (\<lambda>j. 2 ^ j) [0 ..< k]"
    by (simp only: pa_sleeps tw)
next
  assume h: "\<forall>j<max_retries self. fails self env hdrs frm j"
  let ?n = "max_retries self" and ?P = "fails self env hdrs frm"
  have tw: "takeWhile ?P [0..<?n] = [0..<?n]" using h by (intro takeWhile_upt) auto
  have dw: "dropWhile ?P [0..<?n] = []" using h dropWhile_upt[of ?n ?n ?P] by simp
  show "fst (post_attempts self env hdrs frm [0 ..< ?n] w) = (''Error'', ''Max retries reached'', '''')"
    by (simp add: pa_outcome dw)
  show "map snd (posts_of (trace (snd (post_attempts self env hdrs frm [0 ..< ?n] w))))
        = map snd (posts_of (trace w)) @ replicate ?n (post_request self hdrs frm)"
    by (simp only: pa_posts dw) simp
  show "sleeps_of (trace (snd (post_attempts self env hdrs frm [0 ..< ?n] w)))
        = sleeps_of (trace w) @ map (\<lambda>j. 2 ^ j) [0 ..< ?n]"
    by (simp only: pa_sleeps tw)
next
  assume h: "\<forall>j req. verdict (http_post env j req) = verdict (http_post env' j req)"
  show "post_attempts self env hdrs frm [0 ..< max_retries self] w
        = post_attempts self env' hdrs frm [0 ..< max_retries self] w"
    using h by (rule pa_verdict_only)
qed

theorem upload_returns_first_200_or_max_retries_witness:
  "fst (post_attempts example_uploader (server png second_time) [] []
          [0 ..< max_retries example_uploader] start)
     = (''Success'', ''Uploaded successfully'', ''{id:42}'')
   \<and> length (posts_of (trace (snd (post_attempts example_uploader (server png second_time) [] []
          [0 ..< max_retries example_uploader] start)))) = 2
   \<and> fst (post_attempts example_uploader (server png always_500) [] []
          [0 ..< max_retries example_uploader] start)
     = (''Error'', ''Max retries reached'', '''')
   \<and> post_attempts example_uploader (server png always_500) [] []
          [0 ..< max_retries example_uploader] start
     = post_attempts example_uploader (server png always_timeout) [] []
          [0 ..< max_retries example_uploader] start"
proof -
  have a: "1 < max_retries example_uploader
        \<and> (\<forall>j<1. fails example_uploader (server png second_time) [] [] j)
        \<and> verdict (http_post (server png second_time) 1 (post_request example_uploader [] []))
            = Some ''{id:42}''"
    by (simp add: example_uploader_def server_def second_time_def fails_def verdict_def)
  have b: "\<forall>j<max_retries example_uploader. fails example_uploader (server png always_500) [] [] j"
    by (simp add: server_def always_500_def fails_def verdict_def)
  have c: "\<forall>j req. verdict (http_post (server png always_500) j req)
                   = verdict (http_post (server png always_timeout) j req)"
    by (simp add: server_def always_500_def always_timeout_def verdict_def)
  have t0: "posts_of (trace start) = []"
    by (simp add: start_def posts_of_def)
  note u = upload_returns_first_200_or_max_retries
  from u[of example_uploader "server png second_time" "[]" "[]" start "server png second_time"] a
  have s: "fst (post_attempts example_uploader (server png second_time) [] []
              [0 ..< max_retries example_uploader] start)
            = (''Success'', ''Uploaded successfully'', ''{id:42}'')
        \<and> map snd (posts_of (trace (snd (post_attempts example_uploader (server png second_time) [] []
              [0 ..< max_retries example_uploader] start))))
            = map snd (posts_of (trace start)) @ replicate (Suc 1) (post_request example_uploader [] [])"
    by blast
  from s have n: "length (posts_of (trace (snd (post_attempts example_uploader (server png second_time)
              [] [] [0 ..< max_retries example_uploader] start)))) = 2"
    using t0 length_map[of snd "posts_of (trace (snd (post_attempts example_uploader
              (server png second_time) [] [] [0 ..< max_retries example_uploader] start)))"]
    by simp
  from u[of example_uploader "server png always_500" "[]" "[]" start "server png always_timeout"] b c
  have e: "fst (post_attempts example_uploader (server png always_500) [] []
              [0 ..< max_retries example_uploader] start)
            = (''Error'', ''Max retries reached'', '''')
         \<and> post_attempts example_uploader (server png always_500) [] []
              [0 ..< max_retries example_uploader] start
            = post_attempts example_uploader (server png always_timeout) [] []
              [0 ..< max_retries example_uploader] start"
    by blast
  from s n e show ?thesis by blast
qed

section \<open>Properties of the pipeline of one record\<close>

lemma new_filename_nonempty: "new_filename url p m = Inr name \<Longrightarrow> name \<noteq> []"
  by (auto simp: new_filename_def split: sum.splits)

lemma path_join_nonempty: "b \<noteq> [] \<Longrightarrow> path_join a b \<noteq> []"
  by (simp add: path_join_def)

lemma download_ok:
  assumes "new_filename url p m = Inr name"
      and "http_get env url = GetResponse 200 chunks True"
      and "can_open env (path_join (image_download_path self) name)"
  shows "download_image self env url p m w =
           (Inr (Some (path_join (image_download_path self) name, name)),
            emit ([Get url, OpenW (path_join (image_download_path self) name)]
                    @ map (Write (path_join (image_download_path self) name)) chunks)
              (w\<lparr>files := (files w)(path_join (image_download_path self) name \<mapsto> concat chunks)\<rparr>))"
  using assms by (simp add: download_image_def emit_def Let_def)


lemma upload_file_fetched:
  assumes nm: "new_filename (URL r) (ProductId r) (MediaId r) = Inr name"
      and get: "http_get env (URL r) = GetResponse 200 chunks True"
      and opn: "can_open env (path_join (image_download_path self) name)"
  shows "upload_file self env r w =
           (case post_attempts self env (build_headers self)
                   (build_form r (concat chunks) name (now_isoformat w))
                   [0 ..< max_retries self]
                   (after_fetch (URL r) (path_join (image_download_path self) name) chunks w) of
              (out, w3) \<Rightarrow> (Inr out, w3))"
proof -
  have ne: "path_join (image_download_path self) name \<noteq> []"
    using nm by (intro path_join_nonempty new_filename_nonempty)
  show ?thesis
    using ne
    by (simp add: upload_file_def download_ok[OF nm get opn] after_fetch_def emit_def
                  now_isoformat_def Let_def)
qed

lemma after_fetch_world:
  "trace (after_fetch url path chunks w) =
     trace w @ [Get url, OpenW path] @ map (Write path) chunks @ [ReadFile path]"
  "files (after_fetch url path chunks w) = (files w)(path \<mapsto> concat chunks)"
  "clock (after_fetch url path chunks w) = clock w"
  by (simp_all add: after_fetch_def emit_def)

lemma writes_no_obs:
  "posts_of (map (Write path) chunks) = []"
  "sleeps_of (map (Write path) chunks) = []"
  "gets_of (map (Write path) chunks) = []"
  "reads_of (map (Write path) chunks) = []"
  "opens_of (map (Write path) chunks) = []"
  by (induction chunks) (simp_all add: posts_of_def sleeps_of_def gets_of_def reads_of_def opens_of_def)



lemma case_pair_snd: "snd (case p of (out, w3) \<Rightarrow> (f out, w3)) = snd p"
  by (cases p) simp

lemma case_pair_fst: "fst (case p of (out, w3) \<Rightarrow> (f out, w3)) = f (fst p)"
  by (cases p) simp

lemma pa_events:
  "\<exists>evs. trace (snd (post_attempts self env hdrs frm as w)) = trace w @ evs
        \<and> map snd (posts_of evs) = replicate (length (posts_of evs)) (post_request self hdrs frm)
        \<and> (as \<noteq> [] \<longrightarrow> posts_of evs \<noteq> [])
        \<and> reads_of evs = [] \<and> gets_of evs = [] \<and> opens_of evs = []"
proof -
  let ?w' = "snd (post_attempts self env hdrs frm as w)"
  let ?n = "if dropWhile (fails self env hdrs frm) as = [] then length as
            else Suc (length (takeWhile (fails self env hdrs frm) as))"
  from pa_frame[of self env hdrs frm as w]
  obtain evs where tr: "trace ?w' = trace w @ evs"
    and g: "gets_of (trace ?w') = gets_of (trace w)"
    and r: "reads_of (trace ?w') = reads_of (trace w)"
    and o: "opens_of (trace ?w') = opens_of (trace w)"
    by blast
  have "map snd (posts_of (trace w)) @ map snd (posts_of evs)
        = map snd (posts_of (trace w)) @ replicate ?n (post_request self hdrs frm)"
    using pa_posts[of self env hdrs frm as w] by (simp add: tr obs_append)
  then have p: "map snd (posts_of evs) = replicate ?n (post_request self hdrs frm)"
    by simp
  then have "length (map snd (posts_of evs)) = ?n"
    by (simp only: length_replicate)
  then have len: "length (posts_of evs) = ?n" by simp
  have ne: "as \<noteq> [] \<longrightarrow> posts_of evs \<noteq> []"
  proof
    assume "as \<noteq> []"
    then have "0 < ?n" by simp
    then have "0 < length (posts_of evs)" using len by simp
    then show "posts_of evs \<noteq> []" by simp
  qed
  have p': "map snd (posts_of evs) = replicate (length (posts_of evs)) (post_request self hdrs frm)"
    using p len by simp
  have "gets_of evs = []" "reads_of evs = []" "opens_of evs = []"
    using g r o by (simp_all add: tr obs_append)
  then show ?thesis using tr p' ne by (intro exI[of _ evs]) simp
qed

lemma date_of_built:
  "date_of (post_request self hdrs (build_form r bytes file_name current_date)) = Some current_date"
  by (simp add: date_of_def post_request_def build_form_def form_data_def text_fields_def)

lemma file_parts_built:
  "file_parts (post_request self hdrs (build_form r bytes file_name current_date)) = [bytes]"
  by (simp add: file_parts_def post_request_def build_form_def form_data_def)

lemma map_replicate_const:
  "map snd ps = replicate (length ps) x \<Longrightarrow> map (\<lambda>p. f (snd p)) ps = replicate (length ps) (f x)"
proof -
  assume a: "map snd ps = replicate (length ps) x"
  have "map (\<lambda>p. f (snd p)) ps = map f (map snd ps)" by simp
  also have "\<dots> = map f (replicate (length ps) x)" using a by simp
  finally show ?thesis by simp
qed

lemma upload_file_fetched_events:
  assumes nm: "new_filename (URL r) (ProductId r) (MediaId r) = Inr name"
      and get: "http_get env (URL r) = GetResponse 200 chunks True"
      and opn: "can_open env (path_join (image_download_path self) name)"
  shows "\<exists>evs. trace (snd (upload_file self env r w)) =
                 trace w @ ([Get (URL r), OpenW (path_join (image_download_path self) name)]
                   @ map (Write (path_join (image_download_path self) name)) chunks)
                   @ [ReadFile (path_join (image_download_path self) name)] @ evs
        \<and> map snd (posts_of evs) = replicate (length (posts_of evs))
            (post_request self (build_headers self)
               (build_form r (concat chunks) name (now_isoformat w)))
        \<and> (0 < max_retries self \<longrightarrow> posts_of evs \<noteq> [])
        \<and> reads_of evs = [] \<and> gets_of evs = [] \<and> opens_of evs = []"
proof -
  let ?p = "path_join (image_download_path self) name"
  let ?H = "build_headers self"
  let ?F = "build_form r (concat chunks) name (now_isoformat w)"
  let ?W = "after_fetch (URL r) ?p chunks w"
  from pa_events[of self env ?H ?F "[0 ..< max_retries self]" ?W]
  obtain evs where tr: "trace (snd (post_attempts self env ?H ?F [0 ..< max_retries self] ?W))
                          = trace ?W @ evs"
    and p: "map snd (posts_of evs) = replicate (length (posts_of evs)) (post_request self ?H ?F)"
    and ne: "[0 ..< max_retries self] \<noteq> [] \<longrightarrow> posts_of evs \<noteq> []"
    and rest: "reads_of evs = []" "gets_of evs = []" "opens_of evs = []"
    by blast
  have "trace (snd (upload_file self env r w)) = trace ?W @ evs"
    using tr by (simp add: upload_file_fetched[OF nm get opn] case_pair_snd)
  then have "trace (snd (upload_file self env r w)) =
               trace w @ ([Get (URL r), OpenW ?p] @ map (Write ?p) chunks) @ [ReadFile ?p] @ evs"
    by (simp add: after_fetch_world)
  moreover have "0 < max_retries self \<longrightarrow> posts_of evs \<noteq> []" using ne by simp
  ultimately show ?thesis using p rest by (intro exI[of _ evs]) simp
qed

lemma upload_file_fetched_files:
  assumes nm: "new_filename (URL r) (ProductId r) (MediaId r) = Inr name"
      and get: "http_get env (URL r) = GetResponse 200 chunks True"
      and opn: "can_open env (path_join (image_download_path self) name)"
  shows "files (snd (upload_file self env r w)) =
           (files w)(path_join (image_download_path self) name \<mapsto> concat chunks)"
proof -
  let ?W = "after_fetch (URL r) (path_join (image_download_path self) name) chunks w"
  have "files (snd (upload_file self env r w)) = files ?W"
    using pa_frame[of self env "build_headers self"
                      "build_form r (concat chunks) name (now_isoformat w)"
                      "[0 ..< max_retries self]" ?W]
    by (simp add: upload_file_fetched[OF nm get opn] case_pair_snd)
  then show ?thesis by (simp add: after_fetch_world)
qed

text \<open>
  Claim C3, as the spec states it, at the scenario "fetch succeeds, upload returns 500 on
  all 3 attempts": three requests are posted and the delays are 1, 2 and then 4, the last
  one after the third and final attempt, where the claim has no delay.
\<close>

theorem no_delay_after_final_attempt_counterexample:
  "length (posts_of (trace (snd (upload_file example_uploader (server png always_500)
                                   example_row start)))) = 3
   \<and> sleeps_of (trace (snd (upload_file example_uploader (server png always_500)
                                   example_row start))) = [1, 2, 4]
   \<and> last (trace (snd (upload_file example_uploader (server png always_500)
                                   example_row start))) = Sleep 4"
  by code_simp

text \<open>
  Claim C3, amended. For every record whose download succeeds and whose upload attempts
  all fail, with the three attempts that \<^verbatim>\<open>FileUploader.__init__\<close> sets: the result is
  \<^verbatim>\<open>("Error", "Max retries reached", "")\<close>, and after the download and the reading of
  the file the pipeline does exactly this: POST, sleep 1, POST, sleep 2, POST, sleep 4.
  Every failed attempt is followed by its delay \<open>2 ** attempt\<close>, the last one too.
\<close>

theorem backoff_after_every_failed_attempt:
  assumes nm: "new_filename (URL r) (ProductId r) (MediaId r) = Inr name"
      and get: "http_get env (URL r) = GetResponse 200 chunks True"
      and opn: "can_open env (path_join (image_download_path self) name)"
      and mr: "max_retries self = 3"
      and fail: "\<forall>n req. verdict (http_post env n req) = None"
  shows "fst (upload_file self env r w) = Inr (''Error'', ''Max retries reached'', '''')
       \<and> (\<exists>req. trace (snd (upload_file self env r w)) =
             trace (after_fetch (URL r) (path_join (image_download_path self) name) chunks w)
             @ [Post (clock w) req, Sleep 1, Post (clock w + 1) req, Sleep 2,
                Post (clock w + 3) req, Sleep 4])"
proof -
  let ?H = "build_headers self"
  let ?F = "build_form r (concat chunks) name (now_isoformat w)"
  let ?W = "after_fetch (URL r) (path_join (image_download_path self) name) chunks w"
  have f: "\<And>a. fails self env ?H ?F a" using fail by (simp add: fails_def)
  have three: "[0 ..< max_retries self] = [0, 1, 2]" by (simp add: mr upt_conv_Cons)
  have loop: "post_attempts self env ?H ?F [0, 1, 2] ?W =
        ((''Error'', ''Max retries reached'', ''''),
         sleep 4 (emit [Post (clock ?W + 3) (post_request self ?H ?F)]
          (sleep 2 (emit [Post (clock ?W + 1) (post_request self ?H ?F)]
           (sleep 1 (emit [Post (clock ?W) (post_request self ?H ?F)] ?W))))))"
    by (simp add: pa_step_fail[OF f] world_sleep world_emit del: post_attempts.simps(2))
  have up: "upload_file self env r w =
        (Inr (''Error'', ''Max retries reached'', ''''),
         sleep 4 (emit [Post (clock ?W + 3) (post_request self ?H ?F)]
          (sleep 2 (emit [Post (clock ?W + 1) (post_request self ?H ?F)]
           (sleep 1 (emit [Post (clock ?W) (post_request self ?H ?F)] ?W))))))"
    unfolding upload_file_fetched[OF nm get opn] three loop by simp
  have "trace (snd (upload_file self env r w)) =
          trace ?W @ [Post (clock w) (post_request self ?H ?F), Sleep 1,
                      Post (clock w + 1) (post_request self ?H ?F), Sleep 2,
                      Post (clock w + 3) (post_request self ?H ?F), Sleep 4]"
    by (simp add: up world_sleep world_emit after_fetch_world(3))
  then show ?thesis using up by auto
qed

theorem backoff_after_every_failed_attempt_witness:
  "fst (upload_file example_uploader (server png always_500) example_row start)
     = Inr (''Error'', ''Max retries reached'', '''')
   \<and> (\<exists>req. trace (snd (upload_file example_uploader (server png always_500) example_row start)) =
         trace (after_fetch (URL example_row)
                  (path_join (image_download_path example_uploader) ''1_9_a.png'')
                  [''PNG'', ''...''] start)
         @ [Post (clock start) req, Sleep 1, Post (clock start + 1) req, Sleep 2,
            Post (clock start + 3) req, Sleep 4])"
proof -
  have nm: "new_filename (URL example_row) (ProductId example_row) (MediaId example_row)
              = Inr ''1_9_a.png''"
    by code_simp
  have get: "http_get (server png always_500) (URL example_row)
               = GetResponse 200 [''PNG'', ''...''] True"
    by (simp add: server_def png_def)
  have opn: "can_open (server png always_500)
               (path_join (image_download_path example_uploader) ''1_9_a.png'')"
    by (simp add: server_def)
  have mr: "max_retries example_uploader = 3"
    by (simp add: example_uploader_def)
  have fail: "\<forall>n req. verdict (http_post (server png always_500) n req) = None"
    by (simp add: server_def always_500_def verdict_def)
  show ?thesis
    by (rule backoff_after_every_failed_attempt[OF nm get opn mr fail])
qed

text \<open>
  Claim C2, as the spec states it, at a record whose first upload attempt times out and
  whose second succeeds: the two requests are sent at clock readings 5 and 6, and both
  carry the \<^verbatim>\<open>Date\<close> stamped at 5. The retry does not carry a later timestamp.
\<close>

theorem date_restamped_per_attempt_counterexample:
  "stamps (trace (snd (upload_file example_uploader (server png second_time) example_row start)))
     = [(5, Some ''5''), (6, Some ''5'')]"
  by code_simp

text \<open>
  Claim C2, amended. For every record whose download succeeds, \<^verbatim>\<open>Date\<close> is stamped once
  per record: \<^verbatim>\<open>current_date\<close> is read before the loop, and every request of the
  pipeline, first attempt or retry, carries that same \<^verbatim>\<open>Date\<close>, the reading of the clock
  from before the first attempt. (With \<open>max_retries\<close> above 0 there is at least one
  request.)
\<close>

theorem date_stamped_once_per_record:
  assumes nm: "new_filename (URL r) (ProductId r) (MediaId r) = Inr name"
      and get: "http_get env (URL r) = GetResponse 200 chunks True"
      and opn: "can_open env (path_join (image_download_path self) name)"
  shows "\<exists>evs. trace (snd (upload_file self env r w)) = trace w @ evs
        \<and> map snd (stamps evs) = replicate (length (stamps evs)) (Some (now_isoformat w))
        \<and> (0 < max_retries self \<longrightarrow> stamps evs \<noteq> [])"
proof -
  let ?p = "path_join (image_download_path self) name"
  let ?req = "post_request self (build_headers self)
                (build_form r (concat chunks) name (now_isoformat w))"
  from upload_file_fetched_events[OF nm get opn, of w]
  obtain evs where all: "trace (snd (upload_file self env r w)) =
        trace w @ ([Get (URL r), OpenW ?p] @ map (Write ?p) chunks) @ [ReadFile ?p] @ evs
      \<and> map snd (posts_of evs) = replicate (length (posts_of evs)) ?req
      \<and> (0 < max_retries self \<longrightarrow> posts_of evs \<noteq> [])
      \<and> reads_of evs = [] \<and> gets_of evs = [] \<and> opens_of evs = []"
    by (rule exE)
  from all have tr: "trace (snd (upload_file self env r w)) =
        trace w @ ([Get (URL r), OpenW ?p] @ map (Write ?p) chunks) @ [ReadFile ?p] @ evs"
    by (rule conjunct1)
  from all have p: "map snd (posts_of evs) = replicate (length (posts_of evs)) ?req"
    by simp
  from all have ne: "0 < max_retries self \<longrightarrow> posts_of evs \<noteq> []"
    by simp
  let ?all = "([Get (URL r), OpenW ?p] @ map (Write ?p) chunks) @ [ReadFile ?p] @ evs"
  have posts: "posts_of ?all = posts_of evs"
    by (simp add: obs_append writes_no_obs) (simp add: posts_of_def)
  have "map snd (stamps evs) = map (\<lambda>p. date_of (snd p)) (posts_of evs)"
    by (simp add: stamps_def case_prod_unfold)
  also have "\<dots> = replicate (length (posts_of evs)) (date_of ?req)"
    using p by (rule map_replicate_const)
  finally have d: "map snd (stamps evs) = replicate (length (stamps evs)) (Some (now_isoformat w))"
    by (simp add: date_of_built stamps_def)
  have s: "stamps ?all = stamps evs" using posts by (simp add: stamps_def)
  show ?thesis
    using tr d ne s by (intro exI[of _ ?all]) (simp add: stamps_def)
qed

theorem date_stamped_once_per_record_witness:
  "\<exists>evs. trace (snd (upload_file example_uploader (server png second_time) example_row start))
            = trace start @ evs
        \<and> map snd (stamps evs) = replicate (length (stamps evs)) (Some (now_isoformat start))
        \<and> stamps evs \<noteq> []"
proof -
  have nm: "new_filename (URL example_row) (ProductId example_row) (MediaId example_row)
              = Inr ''1_9_a.png''"
    by code_simp
  have get: "http_get (server png second_time) (URL example_row)
               = GetResponse 200 [''PNG'', ''...''] True"
    by (simp add: server_def png_def)
  have opn: "can_open (server png second_time)
               (path_join (image_download_path example_uploader) ''1_9_a.png'')"
    by (simp add: server_def)
  have mr: "0 < max_retries example_uploader"
    by (simp add: example_uploader_def)
  from date_stamped_once_per_record[OF nm get opn, of start]
  obtain evs where e: "trace (snd (upload_file example_uploader (server png second_time)
                                      example_row start)) = trace start @ evs
        \<and> map snd (stamps evs) = replicate (length (stamps evs)) (Some (now_isoformat start))
        \<and> (0 < max_retries example_uploader \<longrightarrow> stamps evs \<noteq> [])"
    by (rule exE)
  show ?thesis using e mr by (intro exI[of _ evs]) simp
qed

text \<open>
  Claim C8, as the spec states it, at the scenario where all three upload attempts fail:
  three requests are posted, and the downloaded file has been read once, not three times.
\<close>

theorem file_reread_per_attempt_counterexample:
  "length (posts_of (trace (snd (upload_file example_uploader (server png always_500)
                                   example_row start)))) = 3
   \<and> reads_of (trace (snd (upload_file example_uploader (server png always_500)
                                   example_row start))) = [''/img/1_9_a.png'']"
  by code_simp

text \<open>
  Claim C8, amended. For every record whose download succeeds, the downloaded file is
  opened and read exactly once per record, after the download and before the first
  request; no request is posted before that reading and the file is not read again
  after it. Every request of the pipeline carries those same bytes in its file part.
\<close>

theorem file_read_once_per_record:
  assumes nm: "new_filename (URL r) (ProductId r) (MediaId r) = Inr name"
      and get: "http_get env (URL r) = GetResponse 200 chunks True"
      and opn: "can_open env (path_join (image_download_path self) name)"
  shows "\<exists>before after.
           trace (snd (upload_file self env r w)) =
             trace w @ before @ [ReadFile (path_join (image_download_path self) name)] @ after
         \<and> posts_of before = [] \<and> reads_of before = [] \<and> reads_of after = []
         \<and> map (\<lambda>p. file_parts (snd p)) (posts_of after)
             = replicate (length (posts_of after)) [concat chunks]
         \<and> (0 < max_retries self \<longrightarrow> posts_of after \<noteq> [])"
proof -
  let ?p = "path_join (image_download_path self) name"
  let ?req = "post_request self (build_headers self)
                (build_form r (concat chunks) name (now_isoformat w))"
  let ?before = "[Get (URL r), OpenW ?p] @ map (Write ?p) chunks"
  from upload_file_fetched_events[OF nm get opn, of w]
  obtain evs where all: "trace (snd (upload_file self env r w)) =
        trace w @ ?before @ [ReadFile ?p] @ evs
      \<and> map snd (posts_of evs) = replicate (length (posts_of evs)) ?req
      \<and> (0 < max_retries self \<longrightarrow> posts_of evs \<noteq> [])
      \<and> reads_of evs = [] \<and> gets_of evs = [] \<and> opens_of evs = []"
    by (rule exE)
  from all have tr: "trace (snd (upload_file self env r w)) =
        trace w @ ?before @ [ReadFile ?p] @ evs"
    by (rule conjunct1)
  from all have p: "map snd (posts_of evs) = replicate (length (posts_of evs)) ?req"
    by simp
  from all have ne: "0 < max_retries self \<longrightarrow> posts_of evs \<noteq> []"
    by simp
  from all have rd: "reads_of evs = []"
    by simp
  have b: "posts_of ?before = []" "reads_of ?before = []"
    by (simp_all add: obs_append writes_no_obs) (simp_all add: posts_of_def reads_of_def)
  have "map (\<lambda>p. file_parts (snd p)) (posts_of evs)
          = replicate (length (posts_of evs)) (file_parts ?req)"
    using p by (rule map_replicate_const)
  then have f: "map (\<lambda>p. file_parts (snd p)) (posts_of evs)
          = replicate (length (posts_of evs)) [concat chunks]"
    by (simp add: file_parts_built)
  show ?thesis
    using tr b f ne rd by (intro exI[of _ ?before] exI[of _ evs]) simp
qed

theorem file_read_once_per_record_witness:
  "\<exists>before after.
     trace (snd (upload_file example_uploader (server png always_500) example_row start)) =
       trace start @ before
         @ [ReadFile (path_join (image_download_path example_uploader) ''1_9_a.png'')] @ after
     \<and> posts_of before = [] \<and> reads_of before = [] \<and> reads_of after = []
     \<and> map (\<lambda>p. file_parts (snd p)) (posts_of after)
         = replicate (length (posts_of after)) [concat [''PNG'', ''...'']]
     \<and> posts_of after \<noteq> []"
proof -
  have nm: "new_filename (URL example_row) (ProductId example_row) (MediaId example_row)
              = Inr ''1_9_a.png''"
    by code_simp
  have get: "http_get (server png always_500) (URL example_row)
               = GetResponse 200 [''PNG'', ''...''] True"
    by (simp add: server_def png_def)
  have opn: "can_open (server png always_500)
               (path_join (image_download_path example_uploader) ''1_9_a.png'')"
    by (simp add: server_def)
  have mr: "0 < max_retries example_uploader"
    by (simp add: example_uploader_def)
  from file_read_once_per_record[OF nm get opn, of start]
  obtain before where "\<exists>after.
     trace (snd (upload_file example_uploader (server png always_500) example_row start)) =
       trace start @ before
         @ [ReadFile (path_join (image_download_path example_uploader) ''1_9_a.png'')] @ after
     \<and> posts_of before = [] \<and> reads_of before = [] \<and> reads_of after = []
     \<and> map (\<lambda>p. file_parts (snd p)) (posts_of after)
         = replicate (length (posts_of after)) [concat [''PNG'', ''...'']]
     \<and> (0 < max_retries example_uploader \<longrightarrow> posts_of after \<noteq> [])"
    by (rule exE)
  then obtain after where e:
    "trace (snd (upload_file example_uploader (server png always_500) example_row start)) =
       trace start @ before
         @ [ReadFile (path_join (image_download_path example_uploader) ''1_9_a.png'')] @ after
     \<and> posts_of before = [] \<and> reads_of before = [] \<and> reads_of after = []
     \<and> map (\<lambda>p. file_parts (snd p)) (posts_of after)
         = replicate (length (posts_of after)) [concat [''PNG'', ''...'']]
     \<and> (0 < max_retries example_uploader \<longrightarrow> posts_of after \<noteq> [])"
    by (rule exE)
  show ?thesis using e mr by (intro exI[of _ before] exI[of _ after]) simp
qed





section \<open>Properties of the file name\<close>

lemma digit_char_cases:
  "d < 10 \<Longrightarrow> d = 0 \<or> d = 1 \<or> d = 2 \<or> d = 3 \<or> d = 4 \<or> d = 5 \<or> d = 6 \<or> d = 7 \<or> d = 8
     \<or> d = (9::nat)"
  by arith

lemma digit_val_digit_char: "d < 10 \<Longrightarrow> digit_val (digit_char d) = d"
  using digit_char_cases[of d] by (auto simp add: digit_val_def digit_char_def)

lemma digit_char_is_digit: "d < 10 \<Longrightarrow> is_digit (digit_char d)"
  using digit_char_cases[of d] by (auto simp add: is_digit_def digit_char_def)

lemma nat_of_digits_snoc: "nat_of_digits (ds @ [c]) = 10 * nat_of_digits ds + digit_val c"
  by (simp add: nat_of_digits_def)

lemma nat_of_digits_str_nat: "nat_of_digits (str_nat n) = n"
proof (induction n rule: str_nat.induct)
  case (1 n)
  show ?case
  proof (cases "n < 10")
    case True
    then show ?thesis
      by (simp add: str_nat.simps[of n] nat_of_digits_def digit_val_digit_char)
  next
    case False
    then have "nat_of_digits (str_nat n) = 10 * (n div 10) + n mod 10"
      using 1 by (simp add: str_nat.simps[of n] nat_of_digits_snoc digit_val_digit_char)
    then show ?thesis by simp
  qed
qed

lemma str_nat_inj: "str_nat m = str_nat n \<Longrightarrow> m = n"
proof -
  assume "str_nat m = str_nat n"
  then have "nat_of_digits (str_nat m) = nat_of_digits (str_nat n)"
    by (rule arg_cong)
  then show ?thesis by (simp only: nat_of_digits_str_nat)
qed

lemma str_nat_digits: "list_all is_digit (str_nat n)"
proof (induction n rule: str_nat.induct)
  case (1 n)
  show ?case
  proof (cases "n < 10")
    case True
    then show ?thesis by (simp add: str_nat.simps[of n] digit_char_is_digit)
  next
    case False
    then show ?thesis using 1 by (simp add: str_nat.simps[of n] digit_char_is_digit)
  qed
qed

lemma str_nat_nonempty: "str_nat n \<noteq> []"
  by (simp add: str_nat.simps[of n])

lemma is_digit_not_sign: "is_digit c \<Longrightarrow> c \<noteq> CHR ''-'' \<and> c \<noteq> CHR ''_''"
  by (auto simp add: is_digit_def)

lemma str_nat_no_sign: "CHR ''-'' \<notin> set (str_nat n)" "CHR ''_'' \<notin> set (str_nat n)"
  using str_nat_digits[of n] is_digit_not_sign by (auto simp add: list_all_iff)

lemma str_nat_not_minus: "str_nat n \<noteq> CHR ''-'' # cs"
  using str_nat_no_sign(1)[of n] by auto

lemma str_int_inj: "str_int i = str_int j \<Longrightarrow> i = j"
proof -
  assume eq: "str_int i = str_int j"
  show ?thesis
  proof (cases "i < 0")
    case True
    show ?thesis
    proof (cases "j < 0")
      case jn: True
      then have "str_nat (nat (- i)) = str_nat (nat (- j))"
        using eq True by (simp add: str_int_def)
      then have "nat (- i) = nat (- j)" by (rule str_nat_inj)
      then show ?thesis using True jn by simp
    next
      case False
      then show ?thesis using eq True str_nat_not_minus[of "nat j"]
        by (simp add: str_int_def) metis
    qed
  next
    case False
    show ?thesis
    proof (cases "j < 0")
      case True
      then show ?thesis using eq False str_nat_not_minus[of "nat i"]
        by (simp add: str_int_def)
    next
      case jp: False
      then have "str_nat (nat i) = str_nat (nat j)"
        using eq False by (simp add: str_int_def)
      then have "nat i = nat j" by (rule str_nat_inj)
      then show ?thesis using False jp by simp
    qed
  qed
qed

lemma str_int_no_underscore: "CHR ''_'' \<notin> set (str_int i)"
  by (simp add: str_int_def str_nat_no_sign)

lemma split_at_separator:
  "c \<notin> set a \<Longrightarrow> c \<notin> set a' \<Longrightarrow> a @ c # b = a' @ c # b' \<Longrightarrow> a = a' \<and> b = b'"
proof (induction a arbitrary: a')
  case Nil
  then show ?case by (cases a') auto
next
  case (Cons x xs)
  then show ?case by (cases a') auto
qed

lemma joined_names_differ:
  assumes "pid \<noteq> pid' \<or> mid \<noteq> mid'"
  shows "str_int pid @ ''_'' @ str_int mid @ ''_'' @ orig
         \<noteq> str_int pid' @ ''_'' @ str_int mid' @ ''_'' @ orig'"
proof
  assume eq: "str_int pid @ ''_'' @ str_int mid @ ''_'' @ orig
              = str_int pid' @ ''_'' @ str_int mid' @ ''_'' @ orig'"
  then have "str_int pid @ CHR ''_'' # (str_int mid @ ''_'' @ orig)
           = str_int pid' @ CHR ''_'' # (str_int mid' @ ''_'' @ orig')"
    by simp
  then have first: "str_int pid = str_int pid'
      \<and> str_int mid @ ''_'' @ orig = str_int mid' @ ''_'' @ orig'"
    by (rule split_at_separator[OF str_int_no_underscore str_int_no_underscore])
  then have "str_int mid @ CHR ''_'' # orig = str_int mid' @ CHR ''_'' # orig'"
    by simp
  then have second: "str_int mid = str_int mid' \<and> orig = orig'"
    by (rule split_at_separator[OF str_int_no_underscore str_int_no_underscore])
  from first second have "pid = pid'" "mid = mid'"
    by (simp_all add: str_int_inj)
  then show False using assms by simp
qed

lemma new_filename_parsed:
  "urlparse_path url = Inr path \<Longrightarrow>
   new_filename url pid mid = Inr (str_int pid @ ''_'' @ str_int mid @ ''_'' @ basename path)"
  by (simp add: new_filename_def original_filename_def)

lemma new_filename_Inr:
  "new_filename url pid mid = Inr f \<Longrightarrow>
   \<exists>orig. f = str_int pid @ ''_'' @ str_int mid @ ''_'' @ orig"
  by (auto simp add: new_filename_def split: sum.splits)

lemma download_image_name:
  "download_image self env url pid mid w = (Inr (Some (fp, name)), w') \<Longrightarrow>
   new_filename url pid mid = Inr name \<and> fp = path_join (image_download_path self) name"
  by (auto simp add: download_image_def Let_def split: sum.splits get_answer.splits if_splits)

text \<open>
  Claim C6. The file name is a function of the url, the product id and the media id
  alone. For a url that \<^verbatim>\<open>urlparse\<close> accepts it is the text of the product id, an
  underscore, the text of the media id, an underscore, and the base name of the path of
  the url; for a url that \<^verbatim>\<open>urlparse\<close> rejects there is no name, and the error leaves the
  function. Whatever the uploader, the answers of the servers and the state of the
  world, a download that succeeds returns that name, under the configured directory.
  And two records that differ in the product id or in the media id get different names,
  whatever their urls.
\<close>

theorem filename_deterministic_and_collision_free:
  "(\<forall>path. urlparse_path url = Inr path \<longrightarrow>
       new_filename url pid mid
         = Inr (str_int pid @ ''_'' @ str_int mid @ ''_'' @ basename path))
   \<and> (\<forall>e. urlparse_path url = Inl e \<longrightarrow> new_filename url pid mid = Inl e)
   \<and> (\<forall>fp name w'. download_image self env url pid mid w = (Inr (Some (fp, name)), w') \<longrightarrow>
         new_filename url pid mid = Inr name \<and> fp = path_join (image_download_path self) name)
   \<and> (\<forall>f f'. new_filename url pid mid = Inr f \<and> new_filename url' pid' mid' = Inr f'
               \<and> (pid \<noteq> pid' \<or> mid \<noteq> mid') \<longrightarrow> f \<noteq> f')"
proof (intro conjI allI impI)
  fix path
  assume "urlparse_path url = Inr path"
  then show "new_filename url pid mid
               = Inr (str_int pid @ ''_'' @ str_int mid @ ''_'' @ basename path)"
    by (rule new_filename_parsed)
next
  fix e
  assume "urlparse_path url = Inl e"
  then show "new_filename url pid mid = Inl e"
    by (simp add: new_filename_def original_filename_def)
next
  fix fp name w'
  assume d: "download_image self env url pid mid w = (Inr (Some (fp, name)), w')"
  show "new_filename url pid mid = Inr name"
    using download_image_name[OF d] by (rule conjunct1)
  show "fp = path_join (image_download_path self) name"
    using download_image_name[OF d] by (rule conjunct2)
next
  fix f f'
  assume h: "new_filename url pid mid = Inr f \<and> new_filename url' pid' mid' = Inr f'
               \<and> (pid \<noteq> pid' \<or> mid \<noteq> mid')"
  from h obtain orig where f: "f = str_int pid @ ''_'' @ str_int mid @ ''_'' @ orig"
    using new_filename_Inr[of url pid mid f] by blast
  from h obtain orig' where f': "f' = str_int pid' @ ''_'' @ str_int mid' @ ''_'' @ orig'"
    using new_filename_Inr[of url' pid' mid' f'] by blast
  from h have "pid \<noteq> pid' \<or> mid \<noteq> mid'" by simp
  then show "f \<noteq> f'" unfolding f f' by (rule joined_names_differ)
qed

theorem filename_deterministic_and_collision_free_witness:
  "new_filename ''http://x/a.png'' 1 23
     = Inr (str_int 1 @ ''_'' @ str_int 23 @ ''_'' @ basename ''/a.png'')
   \<and> ''1_23_a.png'' \<noteq> ''12_3_a.png''
   \<and> new_filename ''http://['' 1 23 = Inl ValueError
   \<and> ''/img/1_23_a.png'' = path_join (image_download_path example_uploader) ''1_23_a.png''"
proof -
  note t = filename_deterministic_and_collision_free[of "''http://x/a.png''" 1 23 example_uploader
             "server png first_time" start "''http://x/a.png''" 12 3]
  have p: "urlparse_path ''http://x/a.png'' = Inr ''/a.png''"
    by code_simp
  have a: "new_filename ''http://x/a.png'' 1 23 = Inr ''1_23_a.png''"
    by code_simp
  have b: "new_filename ''http://x/a.png'' 12 3 = Inr ''12_3_a.png''"
    by code_simp
  have ne: "(1::int) \<noteq> 12 \<or> (23::int) \<noteq> 3"
    by simp
  from t p have one: "new_filename ''http://x/a.png'' 1 23
      = Inr (str_int 1 @ ''_'' @ str_int 23 @ ''_'' @ basename ''/a.png'')"
    by blast
  from t a b ne have two: "''1_23_a.png'' \<noteq> ''12_3_a.png''"
    by blast
  have "fst (download_image example_uploader (server png first_time) ''http://x/a.png'' 1 23 start)
          = Inr (Some (''/img/1_23_a.png'', ''1_23_a.png''))"
    by code_simp
  then have d: "download_image example_uploader (server png first_time) ''http://x/a.png'' 1 23 start
          = (Inr (Some (''/img/1_23_a.png'', ''1_23_a.png'')),
             snd (download_image example_uploader (server png first_time) ''http://x/a.png'' 1 23
                    start))"
    by (simp add: prod_eq_iff)
  from t d have four:
    "''/img/1_23_a.png'' = path_join (image_download_path example_uploader) ''1_23_a.png''"
    by blast
  note t' = filename_deterministic_and_collision_free[of "''http://[''" 1 23 example_uploader
             "server png first_time" start "''http://x/a.png''" 12 3]
  have q: "urlparse_path ''http://['' = Inl ValueError"
    by code_simp
  from t' q have three: "new_filename ''http://['' 1 23 = Inl ValueError"
    by blast
  show ?thesis using one two three four by blast
qed

section \<open>Properties of the disk\<close>

lemma pa_files: "files (snd (post_attempts self env hdrs frm as w)) = files w"
  using pa_frame[of self env hdrs frm as w] by (rule conjunct1)

lemma download_dom:
  "dom (files w) \<subseteq> dom (files (snd (download_image self env url p m w)))"
  by (auto simp add: download_image_def emit_def Let_def split: sum.splits get_answer.splits)

lemma upload_file_files:
  "files (snd (upload_file self env r w))
     = files (snd (download_image self env (URL r) (ProductId r) (MediaId r) w))"
proof (cases "download_image self env (URL r) (ProductId r) (MediaId r) w")
  case (Pair res w1)
  show ?thesis
  proof (cases res)
    case (Inl e)
    then show ?thesis using Pair by (simp add: upload_file_def)
  next
    case (Inr found)
    show ?thesis
    proof (cases found)
      case None
      then show ?thesis using Pair Inr by (simp add: upload_file_def)
    next
      case (Some pn)
      obtain file_path file_name where pn: "pn = (file_path, file_name)" by (cases pn)
      show ?thesis
        using Pair Inr Some pn
        by (simp add: upload_file_def Let_def case_pair_snd pa_files world_emit
                 split: option.splits)
    qed
  qed
qed

lemma upload_file_dom:
  "dom (files w) \<subseteq> dom (files (snd (upload_file self env r w)))"
  by (simp only: upload_file_files download_dom)

lemma run_tasks_dom:
  "dom disk \<subseteq> dom (snd (run_tasks up envs i rs disk t0))"
proof (induction rs arbitrary: i disk)
  case Nil
  then show ?case by simp
next
  case (Cons r rs)
  let ?w = "snd (upload_file up (envs i) r \<lparr> files = disk, clock = t0, trace = [] \<rparr>)"
  have a: "dom disk \<subseteq> dom (files ?w)"
    using upload_file_dom[of "\<lparr> files = disk, clock = t0, trace = [] \<rparr>" up "envs i" r] by simp
  have b: "dom (files ?w) \<subseteq> dom (snd (run_tasks up envs (Suc i) rs (files ?w) t0))"
    by (rule Cons.IH)
  have "snd (run_tasks up envs i (r # rs) disk t0)
          = snd (run_tasks up envs (Suc i) rs (files ?w) t0)"
    by (simp split: prod.splits)
  then show ?case using a b by simp
qed

lemma run_tasks_kept:
  assumes "k < length rs"
      and "new_filename (URL (rs ! k)) (ProductId (rs ! k)) (MediaId (rs ! k)) = Inr name"
      and "http_get (envs (i + k)) (URL (rs ! k)) = GetResponse 200 chunks True"
      and "can_open (envs (i + k)) (path_join (image_download_path up) name)"
  shows "path_join (image_download_path up) name \<in> dom (snd (run_tasks up envs i rs disk t0))"
  using assms
proof (induction rs arbitrary: i k disk)
  case Nil
  then show ?case by simp
next
  case (Cons r rs)
  let ?ini = "\<lparr> files = disk, clock = t0, trace = [] \<rparr>"
  let ?w = "snd (upload_file up (envs i) r ?ini)"
  have step: "snd (run_tasks up envs i (r # rs) disk t0)
          = snd (run_tasks up envs (Suc i) rs (files ?w) t0)"
    by (simp split: prod.splits)
  show ?case
  proof (cases k)
    case 0
    have a1: "new_filename (URL r) (ProductId r) (MediaId r) = Inr name"
      using Cons.prems 0 by simp
    have a2: "http_get (envs i) (URL r) = GetResponse 200 chunks True"
      using Cons.prems 0 by simp
    have a3: "can_open (envs i) (path_join (image_download_path up) name)"
      using Cons.prems 0 by simp
    have "files ?w = (files ?ini)(path_join (image_download_path up) name \<mapsto> concat chunks)"
      by (rule upload_file_fetched_files[OF a1 a2 a3])
    then have "path_join (image_download_path up) name \<in> dom (files ?w)" by simp
    then show ?thesis using run_tasks_dom[of "files ?w" up envs "Suc i" rs t0] step by auto
  next
    case (Suc j)
    have b1: "j < length rs" using Cons.prems Suc by simp
    have b2: "new_filename (URL (rs ! j)) (ProductId (rs ! j)) (MediaId (rs ! j)) = Inr name"
      using Cons.prems Suc by simp
    have b3: "http_get (envs (Suc i + j)) (URL (rs ! j)) = GetResponse 200 chunks True"
      using Cons.prems Suc by simp
    have b4: "can_open (envs (Suc i + j)) (path_join (image_download_path up) name)"
      using Cons.prems Suc by simp
    have "path_join (image_download_path up) name
            \<in> dom (snd (run_tasks up envs (Suc i) rs (files ?w) t0))"
      by (rule Cons.IH[OF b1 b2 b3 b4])
    then show ?thesis using step by simp
  qed
qed

lemma run_disk: "snd (run up df envs disk t0) = snd (run_tasks up envs 0 df disk t0)"
  by (simp add: run_def split: prod.splits sum.splits)

text \<open>
  Claim C10. For every record whose download succeeds, when \<^verbatim>\<open>upload_file\<close> ends, in
  success or after the last retry, the file is on disk at its derived path with the
  bytes that were downloaded, and no file that was on disk before is gone. The same
  holds for the whole run: no file is removed from the disk, and for every row whose
  download succeeds the file at its derived path is on disk when the run ends.
\<close>

theorem downloaded_file_is_kept:
  "(\<forall>name chunks.
       new_filename (URL r) (ProductId r) (MediaId r) = Inr name
       \<and> http_get env (URL r) = GetResponse 200 chunks True
       \<and> can_open env (path_join (image_download_path self) name)
       \<longrightarrow> files (snd (upload_file self env r w)) (path_join (image_download_path self) name)
             = Some (concat chunks))
   \<and> dom (files w) \<subseteq> dom (files (snd (upload_file self env r w)))
   \<and> dom disk \<subseteq> dom (snd (run self df envs disk t0))
   \<and> (\<forall>k name chunks.
         k < length df
         \<and> new_filename (URL (df ! k)) (ProductId (df ! k)) (MediaId (df ! k)) = Inr name
         \<and> http_get (envs k) (URL (df ! k)) = GetResponse 200 chunks True
         \<and> can_open (envs k) (path_join (image_download_path self) name)
         \<longrightarrow> path_join (image_download_path self) name \<in> dom (snd (run self df envs disk t0)))"
proof (intro conjI allI impI)
  fix name chunks
  assume h: "new_filename (URL r) (ProductId r) (MediaId r) = Inr name
       \<and> http_get env (URL r) = GetResponse 200 chunks True
       \<and> can_open env (path_join (image_download_path self) name)"
  then have "files (snd (upload_file self env r w))
               = (files w)(path_join (image_download_path self) name \<mapsto> concat chunks)"
    by (intro upload_file_fetched_files) simp_all
  then show "files (snd (upload_file self env r w)) (path_join (image_download_path self) name)
               = Some (concat chunks)"
    by simp
next
  show "dom (files w) \<subseteq> dom (files (snd (upload_file self env r w)))"
    by (rule upload_file_dom)
next
  show "dom disk \<subseteq> dom (snd (run self df envs disk t0))"
    by (simp only: run_disk run_tasks_dom)
next
  fix k name chunks
  assume h: "k < length df
         \<and> new_filename (URL (df ! k)) (ProductId (df ! k)) (MediaId (df ! k)) = Inr name
         \<and> http_get (envs k) (URL (df ! k)) = GetResponse 200 chunks True
         \<and> can_open (envs k) (path_join (image_download_path self) name)"
  then have "path_join (image_download_path self) name
               \<in> dom (snd (run_tasks self envs 0 df disk t0))"
    using run_tasks_kept[of k df name envs 0 chunks self disk t0] by simp
  then show "path_join (image_download_path self) name \<in> dom (snd (run self df envs disk t0))"
    by (simp only: run_disk)
qed

theorem downloaded_file_is_kept_witness:
  "files (snd (upload_file example_uploader (server png always_500) example_row start))
     (path_join (image_download_path example_uploader) ''1_9_a.png'') = Some ''PNG...''
   \<and> path_join (image_download_path example_uploader) ''1_9_a.png''
       \<in> dom (snd (run example_uploader [example_row, example_row]
                      (all_tasks (server png always_500)) Map.empty 0))"
proof -
  have nm: "new_filename (URL example_row) (ProductId example_row) (MediaId example_row)
              = Inr ''1_9_a.png''"
    by code_simp
  have get: "http_get (server png always_500) (URL example_row)
               = GetResponse 200 [''PNG'', ''...''] True"
    by (simp add: server_def png_def)
  have opn: "can_open (server png always_500)
               (path_join (image_download_path example_uploader) ''1_9_a.png'')"
    by (simp add: server_def)
  have every: "all_tasks (server png always_500) 1 = server png always_500"
    by (simp add: all_tasks_def)
  note t = downloaded_file_is_kept[of example_row "server png always_500" example_uploader start
             Map.empty "[example_row, example_row]" "all_tasks (server png always_500)" 0]
  note one = t[THEN conjunct1]
  from one nm get opn
  have a: "files (snd (upload_file example_uploader (server png always_500) example_row start))
             (path_join (image_download_path example_uploader) ''1_9_a.png'')
           = Some (concat [''PNG'', ''...''])"
    by blast
  note all = t[THEN conjunct2, THEN conjunct2, THEN conjunct2]
  note s1 = spec[where x = "1::nat", OF all]
  note s2 = spec[where x = "''1_9_a.png''", OF s1]
  note s3 = spec[where x = "[''PNG'', ''...'']", OF s2]
  have k1: "(1::nat) < length [example_row, example_row]" by simp
  have at1: "[example_row, example_row] ! 1 = example_row" by simp
  from s3 k1 nm get opn every
  have b: "path_join (image_download_path example_uploader) ''1_9_a.png''
             \<in> dom (snd (run example_uploader [example_row, example_row]
                            (all_tasks (server png always_500)) Map.empty 0))"
    by (simp only: at1 every)
  show ?thesis using a b by simp
qed

section \<open>Properties of the whole run\<close>

lemma post_attempts_delay:
  "post_attempts (up\<lparr>request_delay := d\<rparr>) env hdrs frm as w = post_attempts up env hdrs frm as w"
  by (induction as arbitrary: w) (simp_all add: post_request_def Let_def split: post_answer.splits)

lemma download_image_delay:
  "download_image (up\<lparr>request_delay := d\<rparr>) env url p m w = download_image up env url p m w"
  by (simp add: download_image_def split: sum.splits)

lemma upload_file_delay:
  "upload_file (up\<lparr>request_delay := d\<rparr>) env r w = upload_file up env r w"
  by (simp add: upload_file_def download_image_delay post_attempts_delay build_headers_def
           split: prod.splits sum.splits option.splits)

lemma run_tasks_delay:
  "run_tasks (up\<lparr>request_delay := d\<rparr>) envs i rs disk t0 = run_tasks up envs i rs disk t0"
  by (induction rs arbitrary: i disk) (simp_all add: upload_file_delay)

lemma run_delay:
  "run (up\<lparr>request_delay := d\<rparr>) df envs disk t0 = run up df envs disk t0"
  by (simp add: run_def run_tasks_delay)

lemma ConfigLoader_init_delay:
  assumes "delay_ok d"
  shows "\<exists>v. ConfigLoader_init (environ(''REQUEST_DELAY'' := d)) cwd
           = Inr (\<lparr> db_server = environ ''DB_SERVER'',
                    db_database = environ ''DB_DATABASE'',
                    db_username = environ ''DB_USERNAME'',
                    db_password = environ ''DB_PASSWORD'',
                    upload_url = environ ''UPLOAD_URL'',
                    api_key = environ ''API_KEY'',
                    request_delay = v,
                    image_download_path =
                      (case environ ''IMAGE_DOWNLOAD_PATH'' of
                         None \<Rightarrow> path_join cwd ''images'' | Some p \<Rightarrow> p) \<rparr>)"
  using assms by (auto simp add: ConfigLoader_init_def delay_ok_def split: option.splits)

lemma main_delay:
  assumes "delay_ok d"
  shows "main (environ(''REQUEST_DELAY'' := d)) cwd source envs disk t0 =
           (case source (''DRIVER={SQL Server};''
                         @ ''SERVER='' @ fmt (environ ''DB_SERVER'') @ '';''
                         @ ''DATABASE='' @ fmt (environ ''DB_DATABASE'') @ '';''
                         @ ''UID='' @ fmt (environ ''DB_USERNAME'') @ '';''
                         @ ''PWD='' @ fmt (environ ''DB_PASSWORD'') @ '';'') of
              Inl e \<Rightarrow> (Inl e, disk)
            | Inr df \<Rightarrow>
                run \<lparr> upload_url = environ ''UPLOAD_URL'', api_key = environ ''API_KEY'',
                      request_delay = Finite 0,
                      image_download_path =
                        (case environ ''IMAGE_DOWNLOAD_PATH'' of
                           None \<Rightarrow> path_join cwd ''images'' | Some p \<Rightarrow> p),
                      max_retries = 3 \<rparr> df envs disk t0)"
proof -
  from ConfigLoader_init_delay[OF assms, of environ cwd]
  obtain v where c: "ConfigLoader_init (environ(''REQUEST_DELAY'' := d)) cwd
           = Inr (\<lparr> db_server = environ ''DB_SERVER'',
                    db_database = environ ''DB_DATABASE'',
                    db_username = environ ''DB_USERNAME'',
                    db_password = environ ''DB_PASSWORD'',
                    upload_url = environ ''UPLOAD_URL'',
                    api_key = environ ''API_KEY'',
                    request_delay = v,
                    image_download_path =
                      (case environ ''IMAGE_DOWNLOAD_PATH'' of
                         None \<Rightarrow> path_join cwd ''images'' | Some p \<Rightarrow> p) \<rparr>)"
    by (rule exE)
  let ?up = "\<lparr> upload_url = environ ''UPLOAD_URL'', api_key = environ ''API_KEY'',
                request_delay = Finite 0,
                image_download_path =
                  (case environ ''IMAGE_DOWNLOAD_PATH'' of
                     None \<Rightarrow> path_join cwd ''images'' | Some p \<Rightarrow> p),
                max_retries = 3 \<rparr>"
  have u: "\<And>df. run (?up\<lparr>request_delay := v\<rparr>) df envs disk t0 = run ?up df envs disk t0"
    by (rule run_delay)
  show ?thesis
    using u by (simp add: main_def c conn_str_def FileUploader_init_def split: sum.splits)
qed

text \<open>
  Claim C9, as the spec states it, at two runs that differ only in \<^verbatim>\<open>REQUEST_DELAY\<close>.
  With \<^verbatim>\<open>REQUEST_DELAY=abc\<close> the call \<^verbatim>\<open>float(os.getenv("REQUEST_DELAY", 1.0))\<close> raises
  ValueError in \<^verbatim>\<open>ConfigLoader.__init__\<close>: the program stops before any record is
  processed and nothing is written. With \<^verbatim>\<open>REQUEST_DELAY=0.5\<close> the record is
  uploaded and its file is on disk.
\<close>

theorem request_delay_value_changes_run_counterexample:
  "fst (main (example_environ(''REQUEST_DELAY'' \<mapsto> ''abc'')) ''/home''
          (one_table [example_row]) (all_tasks (server png first_time)) Map.empty 0)
     = Inl ValueError
   \<and> snd (main (example_environ(''REQUEST_DELAY'' \<mapsto> ''abc'')) ''/home''
          (one_table [example_row]) (all_tasks (server png first_time)) Map.empty 0)
        ''/img/1_9_a.png'' = None
   \<and> results (projr (fst (main (example_environ(''REQUEST_DELAY'' \<mapsto> ''0.5'')) ''/home''
          (one_table [example_row]) (all_tasks (server png first_time)) Map.empty 0)))
     = [(''Success'', ''Uploaded successfully'', ''{id:42}'')]
   \<and> snd (main (example_environ(''REQUEST_DELAY'' \<mapsto> ''0.5'')) ''/home''
          (one_table [example_row]) (all_tasks (server png first_time)) Map.empty 0)
        ''/img/1_9_a.png'' = Some ''PNG...''"
  by code_simp

text \<open>
  Claim C9, amended. The value of \<^verbatim>\<open>request_delay\<close> is read at start-up and then never
  used: for any two runs that are identical except for \<^verbatim>\<open>REQUEST_DELAY\<close>, each either
  not set or set to a text that \<^verbatim>\<open>float\<close> converts, the whole run is the same: every
  result, the report, every effect of every task (each GET, file operation, POST with
  its request, and sleep) and the files on disk. The rows the database returns and the
  answers of the servers may depend on everything the program sends them.
\<close>

theorem request_delay_not_used:
  assumes "delay_ok d1" and "delay_ok d2"
  shows "main (environ(''REQUEST_DELAY'' := d1)) cwd source envs disk t0
       = main (environ(''REQUEST_DELAY'' := d2)) cwd source envs disk t0"
  by (simp only: main_delay[OF assms(1)] main_delay[OF assms(2)])

theorem request_delay_not_used_witness:
  "main (example_environ(''REQUEST_DELAY'' := Some ''0.5'')) ''/home''
     (one_table [example_row]) (all_tasks (server png second_time)) Map.empty 0
   = main (example_environ(''REQUEST_DELAY'' := None)) ''/home''
     (one_table [example_row]) (all_tasks (server png second_time)) Map.empty 0"
proof -
  have a: "delay_ok (Some ''0.5'')" by code_simp
  have b: "delay_ok None" by (simp add: delay_ok_def)
  show ?thesis by (rule request_delay_not_used[OF a b])
qed

lemma gather_Inr:
  "gather xs = Inr ys \<Longrightarrow> map Inr ys = xs"
proof (induction xs arbitrary: ys)
  case Nil
  then show ?case by simp
next
  case (Cons x xs)
  then show ?case
    by (cases x) (auto split: sum.splits)
qed

lemma gather_no_error:
  "\<forall>x\<in>set xs. \<not> isl x \<Longrightarrow> \<exists>ys. gather xs = Inr ys"
proof (induction xs)
  case Nil
  then show ?case by simp
next
  case (Cons x xs)
  then obtain ys where "gather xs = Inr ys" by auto
  then show ?case using Cons.prems by (cases x) auto
qed

lemma run_tasks_Cons:
  "fst (run_tasks up envs i (r # rs) disk t0) =
     (fst (upload_file up (envs i) r \<lparr> files = disk, clock = t0, trace = [] \<rparr>),
      trace (snd (upload_file up (envs i) r \<lparr> files = disk, clock = t0, trace = [] \<rparr>)))
     # fst (run_tasks up envs (Suc i) rs
              (files (snd (upload_file up (envs i) r \<lparr> files = disk, clock = t0, trace = [] \<rparr>)))
              t0)"
  by (simp add: case_prod_unfold)

lemma run_fst:
  "fst (run up df envs disk t0) =
     (case gather (map fst (fst (run_tasks up envs 0 df disk t0))) of
        Inl e \<Rightarrow> Inl e
      | Inr rs \<Rightarrow> Inr \<lparr> results = rs, output_xlsx = df,
                       traces = map snd (fst (run_tasks up envs 0 df disk t0)) \<rparr>)"
  by (simp add: run_def case_prod_unfold split: sum.splits)

lemma run_tasks_length: "length (fst (run_tasks up envs i rs disk t0)) = length rs"
  by (induction rs arbitrary: i disk) (simp_all add: run_tasks_Cons del: run_tasks.simps(2))

lemma run_tasks_nth:
  "k < length rs \<Longrightarrow>
   \<exists>d. fst (run_tasks up envs i rs disk t0) ! k
         = (fst (upload_file up (envs (i + k)) (rs ! k) \<lparr> files = d, clock = t0, trace = [] \<rparr>),
            trace (snd (upload_file up (envs (i + k)) (rs ! k)
                          \<lparr> files = d, clock = t0, trace = [] \<rparr>)))"
proof (induction rs arbitrary: i k disk)
  case Nil
  then show ?case by simp
next
  case (Cons r rs)
  let ?w = "snd (upload_file up (envs i) r \<lparr> files = disk, clock = t0, trace = [] \<rparr>)"
  show ?case
  proof (cases k)
    case 0
    then show ?thesis
      by (intro exI[of _ disk]) (simp add: run_tasks_Cons del: run_tasks.simps(2))
  next
    case (Suc j)
    then have "j < length rs" using Cons.prems by simp
    from Cons.IH[OF this, of "Suc i" "files ?w"]
    obtain d where "fst (run_tasks up envs (Suc i) rs (files ?w) t0) ! j
         = (fst (upload_file up (envs (Suc i + j)) (rs ! j) \<lparr> files = d, clock = t0, trace = [] \<rparr>),
            trace (snd (upload_file up (envs (Suc i + j)) (rs ! j)
                          \<lparr> files = d, clock = t0, trace = [] \<rparr>)))"
      by (rule exE)
    then show ?thesis using Suc
      by (intro exI[of _ d]) (simp add: run_tasks_Cons del: run_tasks.simps(2))
  qed
qed

text \<open>
  When \<^verbatim>\<open>run\<close> reaches its last line, the local variable \<open>results\<close> holds one result
  per row, in the order of the rows, and each is what \<^verbatim>\<open>upload_file\<close> returned for that
  row. The data frame that is written to \<^verbatim>\<open>output.xlsx\<close> is the one that was fetched.
\<close>

lemma run_results:
  assumes "fst (run up df envs disk t0) = Inr b"
  shows "length (results b) = length df"
    and "output_xlsx b = df"
    and "k < length df \<Longrightarrow>
         \<exists>d. fst (upload_file up (envs k) (df ! k) \<lparr> files = d, clock = t0, trace = [] \<rparr>)
                = Inr (results b ! k)"
proof -
  let ?ts = "fst (run_tasks up envs 0 df disk t0)"
  from assms have g: "gather (map fst ?ts) = Inr (results b)" and o: "output_xlsx b = df"
    by (auto simp add: run_fst split: sum.splits)
  from g have m: "map Inr (results b) = map fst ?ts" by (rule gather_Inr)
  show len: "length (results b) = length df"
    using arg_cong[OF m, of length] by (simp add: run_tasks_length)
  show "output_xlsx b = df" by (rule o)
  assume k: "k < length df"
  from run_tasks_nth[OF k, of up envs 0 disk t0]
  obtain d where n: "?ts ! k
         = (fst (upload_file up (envs (0 + k)) (df ! k) \<lparr> files = d, clock = t0, trace = [] \<rparr>),
            trace (snd (upload_file up (envs (0 + k)) (df ! k)
                          \<lparr> files = d, clock = t0, trace = [] \<rparr>)))"
    by (rule exE)
  have kr: "k < length (results b)" using k len by simp
  have kt: "k < length ?ts" using k by (simp add: run_tasks_length)
  have "map Inr (results b) ! k = map fst ?ts ! k" by (simp only: m)
  then have "Inr (results b ! k) = fst (?ts ! k)"
    by (simp only: nth_map[OF kr] nth_map[OF kt])
  then show "\<exists>d. fst (upload_file up (envs k) (df ! k) \<lparr> files = d, clock = t0, trace = [] \<rparr>)
                = Inr (results b ! k)"
    using n by (intro exI[of _ d]) simp
qed

text \<open>
  The one exception that leaves \<^verbatim>\<open>upload_file\<close> is the ValueError of \<^verbatim>\<open>urlparse\<close>: the
  file that is read has just been written. So a run over rows whose urls \<^verbatim>\<open>urlparse\<close>
  accepts reaches its last line.
\<close>

lemma download_image_written:
  "download_image self env url p m w = (Inr (Some (fp, name)), w1) \<Longrightarrow> files w1 fp \<noteq> None"
  by (auto simp add: download_image_def emit_def Let_def
           split: sum.splits get_answer.splits if_splits)

lemma upload_file_raises:
  assumes "fst (upload_file self env r w) = Inl e"
  shows "new_filename (URL r) (ProductId r) (MediaId r) = Inl e"
proof (cases "download_image self env (URL r) (ProductId r) (MediaId r) w")
  case (Pair res w1)
  show ?thesis
  proof (cases res)
    case (Inl e')
    then have "new_filename (URL r) (ProductId r) (MediaId r) = Inl e'"
      using Pair
      by (auto simp add: download_image_def Let_def
               split: sum.splits get_answer.splits if_splits)
    moreover have "e' = e" using assms Pair Inl by (simp add: upload_file_def)
    ultimately show ?thesis by simp
  next
    case (Inr found)
    show ?thesis
    proof (cases found)
      case None
      then show ?thesis using assms Pair Inr by (simp add: upload_file_def)
    next
      case (Some pn)
      obtain fp name where pn: "pn = (fp, name)" by (cases pn)
      have "files w1 fp \<noteq> None"
        using Pair Inr Some pn by (intro download_image_written[of self env _ _ _ w fp name]) simp
      then show ?thesis
        using assms Pair Inr Some pn
        by (auto simp add: upload_file_def Let_def case_pair_fst split: if_splits)
    qed
  qed
qed

lemma run_reaches_end:
  assumes "\<forall>r\<in>set df. \<exists>name. new_filename (URL r) (ProductId r) (MediaId r) = Inr name"
  shows "\<exists>b. fst (run up df envs disk t0) = Inr b"
proof -
  let ?ts = "fst (run_tasks up envs 0 df disk t0)"
  have "\<forall>x\<in>set (map fst ?ts). \<not> isl x"
  proof
    fix x
    assume "x \<in> set (map fst ?ts)"
    then obtain k where k: "k < length ?ts" and x: "x = fst (?ts ! k)"
      by (auto simp add: in_set_conv_nth)
    from k have kd: "k < length df" by (simp add: run_tasks_length)
    from run_tasks_nth[OF kd, of up envs 0 disk t0]
    obtain d where n: "?ts ! k
         = (fst (upload_file up (envs (0 + k)) (df ! k) \<lparr> files = d, clock = t0, trace = [] \<rparr>),
            trace (snd (upload_file up (envs (0 + k)) (df ! k)
                          \<lparr> files = d, clock = t0, trace = [] \<rparr>)))"
      by (rule exE)
    show "\<not> isl x"
    proof
      assume "isl x"
      then obtain e where "x = Inl e" by (cases x) auto
      then have "fst (upload_file up (envs k) (df ! k) \<lparr> files = d, clock = t0, trace = [] \<rparr>)
                   = Inl e"
        using x n by simp
      then have "new_filename (URL (df ! k)) (ProductId (df ! k)) (MediaId (df ! k)) = Inl e"
        by (rule upload_file_raises)
      moreover have "df ! k \<in> set df" using kd by simp
      ultimately show False using assms by fastforce
    qed
  qed
  then obtain ys where "gather (map fst ?ts) = Inr ys"
    using gather_no_error by blast
  then show ?thesis
    by (simp add: run_fst)
qed

text \<open>
  Claim C1, at one record, once with a download that fails (status 404) and once with
  a download and an upload that succeed: the results differ, and the data frame
  written to \<^verbatim>\<open>output.xlsx\<close> is in both runs the row as it was fetched. The results
  are gathered and then dropped; the report holds no outcome.
\<close>

theorem report_holds_no_outcome:
  "results (projr (fst (run example_uploader [example_row]
                          (all_tasks (server not_found first_time)) Map.empty 0)))
     = [(''Error'', ''Failed to download image'', '''')]
   \<and> results (projr (fst (run example_uploader [example_row]
                          (all_tasks (server png first_time)) Map.empty 0)))
     = [(''Success'', ''Uploaded successfully'', ''{id:42}'')]
   \<and> output_xlsx (projr (fst (run example_uploader [example_row]
                          (all_tasks (server not_found first_time)) Map.empty 0)))
     = [example_row]
   \<and> output_xlsx (projr (fst (run example_uploader [example_row]
                          (all_tasks (server png first_time)) Map.empty 0)))
     = [example_row]"
  by code_simp

text \<open>
  Claim C7, at two records of which the second has the url \<^verbatim>\<open>http://[\<close>: \<^verbatim>\<open>urlparse\<close>
  raises ValueError before the \<^verbatim>\<open>try\<close> of \<^verbatim>\<open>download_image\<close>, the exception leaves
  \<^verbatim>\<open>upload_file\<close>, and \<^verbatim>\<open>asyncio.gather\<close> raises it in \<^verbatim>\<open>run\<close>: the run ends with the
  exception, without results and without a report, also for the first record, whose
  pipeline alone succeeds.
\<close>

theorem malformed_url_aborts_run:
  "fst (upload_file example_uploader (server png first_time) broken_url_row start)
     = Inl ValueError
   \<and> fst (upload_file example_uploader (server png first_time) example_row start)
     = Inr (''Success'', ''Uploaded successfully'', ''{id:42}'')
   \<and> fst (run example_uploader [example_row, broken_url_row]
             (all_tasks (server png first_time)) Map.empty 0)
     = Inl ValueError"
  by code_simp

end
